theory Spec2Isabelle
  imports
    Complex_Main
    "HOL-Library.Char_ord"
    "HOL-Library.List_Lexorder"
    "HOL-Library.Product_Lexorder"
    "HOL-Library.Multiset"
begin

section \<open>JavaScript values\<close>

text \<open>
  The quality engine is the JavaScript module \<^verbatim>\<open>dataAnalysis\<close> (detectDataType,
  findMissingValues, findDuplicates, analyzeDataTypes, calculateStatistics, calculateMode,
  detectOutliers, analyzeDataQuality). Its numbers are IEEE doubles. A finite double is
  modelled by the real number it denotes; \<open>NaN\<close> and the two infinities are values of
  their own, because the engine divides by lengths that can be zero and parses numbers out
  of text. The negative zero is not told from zero. The outlier bounds of detectOutliers,
  which decide the values that are reported, are computed as the engine computes them, the
  result of every operation rounded to the nearest double (\<open>roundDouble\<close> below); the
  other sums, products and quotients of the engine are taken exactly.
\<close>

datatype jsnum = Fin real | PInf | NInf | NaN

text \<open>
  A cell is what \<^verbatim>\<open>row[header]\<close> evaluates to: \<open>Undefined\<close> when the row has no such
  key, otherwise null, a number, a string or a boolean.
\<close>

datatype cell = Undefined | Null | Num jsnum | Text string | Bool bool

type_synonym row = "(string \<times> cell) list"

record dataset =
  headers :: "string list"
  rows :: "row list"

definition getCell :: "row \<Rightarrow> string \<Rightarrow> cell" where
  "getCell r k = (case map_of r k of None \<Rightarrow> Undefined | Some c \<Rightarrow> c)"

text \<open>
  The rows, and the objects that the engine keys by header, are ordinary objects: they
  inherit from \<^verbatim>\<open>Object.prototype\<close>. For a key that \<^verbatim>\<open>Object.prototype\<close> defines,
  \<^verbatim>\<open>row[header]\<close> finds the inherited property when the row has none of its own, and an
  assignment to \<^verbatim>\<open>__proto__\<close> replaces the prototype instead of adding a property, which
  \<^verbatim>\<open>Object.entries\<close> and \<^verbatim>\<open>Object.values\<close> then do not list. The model keeps the own
  properties only. It is the engine's behaviour for the headers that are none of these keys,
  the plain keys; what is stated about the content of the objects keyed by header is stated
  for plain headers.
\<close>

definition objectPrototypeKeys :: "string list" where
  "objectPrototypeKeys =
     [''__proto__'', ''constructor'', ''hasOwnProperty'', ''isPrototypeOf'',
      ''propertyIsEnumerable'', ''toLocaleString'', ''toString'', ''valueOf'',
      ''__defineGetter__'', ''__defineSetter__'', ''__lookupGetter__'', ''__lookupSetter__'']"

definition plainKey :: "string \<Rightarrow> bool" where
  "plainKey k = (k \<notin> set objectPrototypeKeys)"

subsection \<open>Number operations\<close>

definition isNaN :: "jsnum \<Rightarrow> bool" where
  "isNaN x = (x = NaN)"

fun jneg :: "jsnum \<Rightarrow> jsnum" where
  "jneg (Fin a) = Fin (- a)"
| "jneg PInf = NInf"
| "jneg NInf = PInf"
| "jneg NaN = NaN"

fun jadd :: "jsnum \<Rightarrow> jsnum \<Rightarrow> jsnum" where
  "jadd (Fin a) (Fin b) = Fin (a + b)"
| "jadd NaN _ = NaN"
| "jadd _ NaN = NaN"
| "jadd PInf NInf = NaN"
| "jadd NInf PInf = NaN"
| "jadd PInf _ = PInf"
| "jadd _ PInf = PInf"
| "jadd NInf _ = NInf"
| "jadd _ NInf = NInf"

definition jsub :: "jsnum \<Rightarrow> jsnum \<Rightarrow> jsnum" where
  "jsub a b = jadd a (jneg b)"

fun jsign :: "jsnum \<Rightarrow> real" where
  "jsign (Fin a) = sgn a"
| "jsign PInf = 1"
| "jsign NInf = - 1"
| "jsign NaN = 0"

definition ofSign :: "real \<Rightarrow> jsnum" where
  "ofSign s = (if s = 0 then NaN else if 0 < s then PInf else NInf)"

fun jmul :: "jsnum \<Rightarrow> jsnum \<Rightarrow> jsnum" where
  "jmul (Fin a) (Fin b) = Fin (a * b)"
| "jmul NaN _ = NaN"
| "jmul _ NaN = NaN"
| "jmul a b = ofSign (jsign a * jsign b)"

text \<open>Zero is the positive zero, so a nonzero finite number over zero takes its own sign.\<close>

fun jdiv :: "jsnum \<Rightarrow> jsnum \<Rightarrow> jsnum" where
  "jdiv (Fin a) (Fin b) = (if b = 0 then ofSign (sgn a) else Fin (a / b))"
| "jdiv NaN _ = NaN"
| "jdiv _ NaN = NaN"
| "jdiv (Fin a) _ = Fin 0"
| "jdiv a (Fin b) = ofSign (jsign a * (if b < 0 then - 1 else 1))"
| "jdiv _ _ = NaN"

fun jlt :: "jsnum \<Rightarrow> jsnum \<Rightarrow> bool" where
  "jlt (Fin a) (Fin b) = (a < b)"
| "jlt NaN _ = False"
| "jlt _ NaN = False"
| "jlt NInf b = (b \<noteq> NInf)"
| "jlt a PInf = (a \<noteq> PInf)"
| "jlt _ _ = False"

definition jgt :: "jsnum \<Rightarrow> jsnum \<Rightarrow> bool" where
  "jgt a b = jlt b a"

text \<open>
  Rounding to the nearest double, ties to the even significand. A double other than zero is
  an integer multiple \<open>m * 2^(e - 52)\<close> with \<open>e\<close> from -1022 to 1023 and
  \<open>\<bar>m\<bar> < 2^53\<close>. For a real number \<open>x\<close> the exponent \<open>e\<close> is that of its binade (-1022 in
  the subnormal range), the multiple is chosen by \<open>roundHalfEven\<close>, and a result of
  magnitude \<open>2^1024\<close> or more is an infinity.
\<close>

definition roundHalfEven :: "real \<Rightarrow> int" where
  "roundHalfEven y =
     (if y - of_int \<lfloor>y\<rfloor> < 1 / 2 then \<lfloor>y\<rfloor>
      else if 1 / 2 < y - of_int \<lfloor>y\<rfloor> then \<lfloor>y\<rfloor> + 1
      else if even \<lfloor>y\<rfloor> then \<lfloor>y\<rfloor> else \<lfloor>y\<rfloor> + 1)"

definition binaryExponent :: "real \<Rightarrow> int" where
  "binaryExponent x = max \<lfloor>log 2 \<bar>x\<bar>\<rfloor> (- 1022)"

definition ulp :: "real \<Rightarrow> real" where
  "ulp x = 2 powr real_of_int (binaryExponent x - 52)"

definition nearestMultiple :: "real \<Rightarrow> real" where
  "nearestMultiple x = (if x = 0 then 0 else real_of_int (roundHalfEven (x / ulp x)) * ulp x)"

definition roundDouble :: "real \<Rightarrow> jsnum" where
  "roundDouble x =
     (if 2 ^ 1024 \<le> nearestMultiple x then PInf
      else if nearestMultiple x \<le> - (2 ^ 1024) then NInf
      else Fin (nearestMultiple x))"

text \<open>
  The operations \<^verbatim>\<open>a + b\<close>, \<^verbatim>\<open>a - b\<close> and \<^verbatim>\<open>a * b\<close> on doubles: the exact result, rounded.
\<close>

fun fround :: "jsnum \<Rightarrow> jsnum" where
  "fround (Fin r) = roundDouble r"
| "fround x = x"

definition fadd :: "jsnum \<Rightarrow> jsnum \<Rightarrow> jsnum" where
  "fadd a b = fround (jadd a b)"

definition fsub :: "jsnum \<Rightarrow> jsnum \<Rightarrow> jsnum" where
  "fsub a b = fround (jsub a b)"

definition fmul :: "jsnum \<Rightarrow> jsnum \<Rightarrow> jsnum" where
  "fmul a b = fround (jmul a b)"

definition Math_max :: "jsnum \<Rightarrow> jsnum \<Rightarrow> jsnum" where
  "Math_max a b = (if a = NaN \<or> b = NaN then NaN else if jlt a b then b else a)"

definition Math_pow2 :: "jsnum \<Rightarrow> jsnum" where
  "Math_pow2 a = jmul a a"

fun Math_sqrt :: "jsnum \<Rightarrow> jsnum" where
  "Math_sqrt (Fin a) = (if a < 0 then NaN else Fin (sqrt a))"
| "Math_sqrt PInf = PInf"
| "Math_sqrt _ = NaN"

definition ofNat :: "nat \<Rightarrow> jsnum" where
  "ofNat n = Fin (real n)"

subsection \<open>Strings\<close>

text \<open>
  Strings are sequences of 8-bit characters (the Latin-1 part of a JavaScript string). The
  character classes are the ones the engine's regular expressions and \<^verbatim>\<open>trim\<close> use.
\<close>

definition isDigit :: "char \<Rightarrow> bool" where
  "isDigit c = (c \<in> set ''0123456789'')"

definition isLower :: "char \<Rightarrow> bool" where
  "isLower c = (c \<in> set ''abcdefghijklmnopqrstuvwxyz'')"

definition isUpper :: "char \<Rightarrow> bool" where
  "isUpper c = (c \<in> set ''ABCDEFGHIJKLMNOPQRSTUVWXYZ'')"

definition isSpace :: "char \<Rightarrow> bool" where
  "isSpace c = (c \<in> set [CHR 0x09, CHR 0x0A, CHR 0x0B, CHR 0x0C, CHR 0x0D, CHR 0x20, CHR 0xA0])"

definition lowerChar :: "char \<Rightarrow> char" where
  "lowerChar c =
     (case map_of (zip ''ABCDEFGHIJKLMNOPQRSTUVWXYZ'' ''abcdefghijklmnopqrstuvwxyz'') c of
        None \<Rightarrow> c | Some d \<Rightarrow> d)"

text \<open>
  \<^verbatim>\<open>toLowerCase\<close> on the ASCII letters. The engine only compares its result with ASCII
  words, and no other Latin-1 letter lowers to an ASCII one.
\<close>

definition toLowerCase :: "string \<Rightarrow> string" where
  "toLowerCase s = map lowerChar s"

definition trim :: "string \<Rightarrow> string" where
  "trim s = rev (dropWhile isSpace (rev (dropWhile isSpace s)))"

definition str_includes :: "string \<Rightarrow> char \<Rightarrow> bool" where
  "str_includes s c = (c \<in> set s)"

subsection \<open>Built-ins of the host\<close>

text \<open>
  What the engine takes from the JavaScript runtime and what depends on the double
  representation or on the implementation is a parameter of the model:
  \<open>numToString\<close> is Number::toString on a finite number, \<open>toNumber\<close> is the conversion
  \<^verbatim>\<open>Number(s)\<close> that \<^verbatim>\<open>isNaN(s)\<close> applies to a string, \<open>parseFloat\<close> is
  \<^verbatim>\<open>parseFloat(s)\<close>, \<open>dateValid s\<close> says that \<^verbatim>\<open>new Date(s).getTime()\<close> is not NaN,
  and \<open>toFixed d x\<close> is \<^verbatim>\<open>x.toFixed(d)\<close> on a finite number.
\<close>

record host =
  numToString :: "real \<Rightarrow> string"
  toNumber :: "string \<Rightarrow> jsnum"
  parseFloat :: "string \<Rightarrow> jsnum"
  dateValid :: "string \<Rightarrow> bool"
  toFixed :: "nat \<Rightarrow> real \<Rightarrow> string"

fun jsnumToString :: "host \<Rightarrow> jsnum \<Rightarrow> string" where
  "jsnumToString h (Fin a) = numToString h a"
| "jsnumToString h PInf = ''Infinity''"
| "jsnumToString h NInf = ''-Infinity''"
| "jsnumToString h NaN = ''NaN''"

fun jsnumToFixed :: "host \<Rightarrow> nat \<Rightarrow> jsnum \<Rightarrow> string" where
  "jsnumToFixed h d (Fin a) = toFixed h d a"
| "jsnumToFixed h d x = jsnumToString h x"

text \<open>\<^verbatim>\<open>String(v)\<close>, which is also \<^verbatim>\<open>v.toString()\<close> where that is defined.\<close>

fun cellToString :: "host \<Rightarrow> cell \<Rightarrow> string" where
  "cellToString h Undefined = ''undefined''"
| "cellToString h Null = ''null''"
| "cellToString h (Num n) = jsnumToString h n"
| "cellToString h (Text s) = s"
| "cellToString h (Bool b) = (if b then ''true'' else ''false'')"

text \<open>
  \<^verbatim>\<open>typeof v === 'number' ? v : parseFloat(v)\<close>. \<^verbatim>\<open>parseFloat\<close> converts its argument
  to a string first; the strings of undefined, null and the booleans start with a letter
  other than \<open>I\<close>, so they parse to NaN.
\<close>

fun toNumeric :: "host \<Rightarrow> cell \<Rightarrow> jsnum" where
  "toNumeric h (Num n) = n"
| "toNumeric h (Text s) = parseFloat h s"
| "toNumeric h _ = NaN"

text \<open>The test \<^verbatim>\<open>if (v)\<close>.\<close>

fun truthy :: "cell \<Rightarrow> bool" where
  "truthy Undefined = False"
| "truthy Null = False"
| "truthy (Num n) = (n \<noteq> NaN \<and> n \<noteq> Fin 0)"
| "truthy (Text s) = (s \<noteq> [])"
| "truthy (Bool b) = b"

text \<open>The filter \<^verbatim>\<open>v !== null && v !== undefined && v !== ''\<close>.\<close>

definition nonNull :: "cell \<Rightarrow> bool" where
  "nonNull v = (v \<noteq> Null \<and> v \<noteq> Undefined \<and> v \<noteq> Text [])"

section \<open>detectDataType\<close>

datatype dtype = TEmpty | TNumber | TString | TBoolean | TDate

record typeinfo =
  type :: dtype
  confidence :: jsnum
  nullable :: bool
  mixedTypes :: bool

text \<open>
  The empty result of the source has no \<^verbatim>\<open>mixedTypes\<close> property; the engine only tests the
  property for truth, so the absent property is \<open>False\<close> here.
\<close>

fun matchPattern :: "string \<Rightarrow> string \<Rightarrow> bool" where
  "matchPattern [] [] = True"
| "matchPattern (p # ps) (c # cs) =
     ((if p = CHR ''d'' then isDigit c else c = p) \<and> matchPattern ps cs)"
| "matchPattern _ _ = False"

text \<open>The three anchored patterns of isValidDate, \<open>d\<close> standing for \<^verbatim>\<open>\d\<close>.\<close>

definition datePatterns :: "string list" where
  "datePatterns = [''dddd-dd-dd'', ''dd/dd/dddd'', ''dd-dd-dddd'']"

fun isValidDate :: "host \<Rightarrow> cell \<Rightarrow> bool" where
  "isValidDate h (Text s) = ((\<exists>p \<in> set datePatterns. matchPattern p s) \<and> dateValid h s)"
| "isValidDate h _ = False"

definition booleanWords :: "string list" where
  "booleanWords = [''true'', ''false'', ''yes'', ''no'', ''1'', ''0'']"

text \<open>
  The global \<^verbatim>\<open>isNaN(v)\<close> converts with \<^verbatim>\<open>Number(v)\<close>: null becomes 0 and undefined NaN.
  Only strings and numbers reach these two tests in detectDataType.
\<close>

fun isNaN_cell :: "host \<Rightarrow> cell \<Rightarrow> bool" where
  "isNaN_cell h Undefined = True"
| "isNaN_cell h Null = False"
| "isNaN_cell h (Num n) = isNaN n"
| "isNaN_cell h (Text s) = isNaN (toNumber h s)"
| "isNaN_cell h (Bool b) = False"

definition isBooleanValue :: "cell \<Rightarrow> bool" where
  "isBooleanValue v =
     (case v of Bool b \<Rightarrow> True
      | Text s \<Rightarrow> toLowerCase s \<in> set booleanWords
      | _ \<Rightarrow> False)"

definition isNumberValue :: "host \<Rightarrow> cell \<Rightarrow> bool" where
  "isNumberValue h v =
     (case v of Num n \<Rightarrow> True
      | _ \<Rightarrow> \<not> isNaN_cell h v \<and> \<not> isNaN (toNumeric h v))"

record tally =
  numberCount :: nat
  stringCount :: nat
  booleanCount :: nat
  dateCount :: nat

definition tallyStep :: "host \<Rightarrow> tally \<Rightarrow> cell \<Rightarrow> tally" where
  "tallyStep h t v =
     (if isBooleanValue v then t\<lparr>booleanCount := booleanCount t + 1\<rparr>
      else if isNumberValue h v then t\<lparr>numberCount := numberCount t + 1\<rparr>
      else if isValidDate h v then t\<lparr>dateCount := dateCount t + 1\<rparr>
      else t\<lparr>stringCount := stringCount t + 1\<rparr>)"

record typeEntry =
  te_type :: dtype
  te_count :: nat
  te_confidence :: jsnum

definition typeEntries :: "tally \<Rightarrow> nat \<Rightarrow> typeEntry list" where
  "typeEntries t n =
     [\<lparr>te_type = TNumber, te_count = numberCount t, te_confidence = jdiv (ofNat (numberCount t)) (ofNat n)\<rparr>,
      \<lparr>te_type = TString, te_count = stringCount t, te_confidence = jdiv (ofNat (stringCount t)) (ofNat n)\<rparr>,
      \<lparr>te_type = TBoolean, te_count = booleanCount t, te_confidence = jdiv (ofNat (booleanCount t)) (ofNat n)\<rparr>,
      \<lparr>te_type = TDate, te_count = dateCount t, te_confidence = jdiv (ofNat (dateCount t)) (ofNat n)\<rparr>]"

text \<open>\<^verbatim>\<open>types.reduce((max, curr) => curr.count > max.count ? curr : max)\<close>, no initial value.\<close>

definition reduceMax :: "typeEntry list \<Rightarrow> typeEntry" where
  "reduceMax ts = foldl (\<lambda>mx curr. if te_count curr > te_count mx then curr else mx) (hd ts) (tl ts)"

definition detectDataType :: "host \<Rightarrow> cell list \<Rightarrow> typeinfo" where
  "detectDataType h vals =
     (let nonNullValues = filter nonNull vals in
      if length nonNullValues = 0
      then \<lparr>type = TEmpty, confidence = Fin 1, nullable = True, mixedTypes = False\<rparr>
      else
        let t = foldl (tallyStep h)
                  \<lparr>numberCount = 0, stringCount = 0, booleanCount = 0, dateCount = 0\<rparr> nonNullValues;
            n = length nonNullValues;
            types = typeEntries t n;
            dominant = reduceMax types
        in \<lparr>type = te_type dominant,
            confidence = te_confidence dominant,
            nullable = (length vals > length nonNullValues),
            mixedTypes = (length (filter (\<lambda>e. te_count e > 0) types) > 1)\<rparr>)"

section \<open>Objects keyed by column name\<close>

text \<open>
  \<^verbatim>\<open>missingByColumn\<close>, \<^verbatim>\<open>typeAnalysis\<close> and \<^verbatim>\<open>columnStats\<close> are objects with one
  property per plain header. An object is the list of its own properties in creation order;
  assigning to an existing key keeps the key's place. \<^verbatim>\<open>Object.entries\<close> and
  \<^verbatim>\<open>Object.values\<close> enumerate the keys that are array indices first, in ascending numeric
  order, and then the other keys in creation order.
\<close>

type_synonym 'v obj = "(string \<times> 'v) list"

definition obj_get :: "'v obj \<Rightarrow> string \<Rightarrow> 'v option" where
  "obj_get ob k = map_of ob k"

fun obj_set :: "string \<Rightarrow> 'v \<Rightarrow> 'v obj \<Rightarrow> 'v obj" where
  "obj_set k v [] = [(k, v)]"
| "obj_set k v (p # ps) = (if fst p = k then (k, v) # ps else p # obj_set k v ps)"

definition obj_upd :: "string \<Rightarrow> ('v \<Rightarrow> 'v) \<Rightarrow> 'v obj \<Rightarrow> 'v obj" where
  "obj_upd k f ob = map (\<lambda>p. if fst p = k then (fst p, f (snd p)) else p) ob"

definition digitVal :: "char \<Rightarrow> nat" where
  "digitVal c =
     (case map_of (zip ''0123456789'' [0, 1, 2, 3, 4, 5, 6, 7, 8, 9]) c of
        None \<Rightarrow> 0 | Some d \<Rightarrow> d)"

definition decValue :: "string \<Rightarrow> nat" where
  "decValue s = foldl (\<lambda>n c. 10 * n + digitVal c) 0 s"

text \<open>
  An array index is a canonical numeric string (decimal digits, no leading zero unless the
  string is \<open>0\<close>) whose value is at most \<open>2^32 - 2\<close>.
\<close>

definition arrayIndex :: "string \<Rightarrow> nat option" where
  "arrayIndex s =
     (if s \<noteq> [] \<and> (\<forall>c \<in> set s. isDigit c) \<and> (hd s \<noteq> CHR ''0'' \<or> s = ''0'')
         \<and> decValue s < 2 ^ 32 - 1
      then Some (decValue s) else None)"

definition obj_entries :: "'v obj \<Rightarrow> (string \<times> 'v) list" where
  "obj_entries ob =
     sort_key (\<lambda>p. the (arrayIndex (fst p))) (filter (\<lambda>p. arrayIndex (fst p) \<noteq> None) ob)
     @ filter (\<lambda>p. arrayIndex (fst p) = None) ob"

text \<open>The order in which the keys of an object are enumerated, from their creation order.\<close>

definition propertyOrder :: "string list \<Rightarrow> string list" where
  "propertyOrder ks =
     sort_key (\<lambda>k. the (arrayIndex k)) (filter (\<lambda>k. arrayIndex k \<noteq> None) ks)
     @ filter (\<lambda>k. arrayIndex k = None) ks"

definition obj_values :: "'v obj \<Rightarrow> 'v list" where
  "obj_values ob = map snd (obj_entries ob)"

definition columnValues :: "dataset \<Rightarrow> string \<Rightarrow> cell list" where
  "columnValues d header = map (\<lambda>r. getCell r header) (rows d)"

section \<open>findMissingValues\<close>

record missingInfo =
  mvCount :: nat
  percentage :: jsnum
  positions :: "nat list"

record rowMissing =
  rowIndex :: nat
  missingCount :: nat
  rowPercentage :: jsnum

record missingReport =
  byColumn :: "missingInfo obj"
  byRow :: "rowMissing list"
  totalMissing :: nat
  missingPercentage :: jsnum
  completenessScore :: jsnum

definition isMissing :: "cell \<Rightarrow> bool" where
  "isMissing v =
     (v = Null \<or> v = Undefined \<or> v = Text [] \<or> (case v of Text s \<Rightarrow> trim s = [] | _ \<Rightarrow> False))"

text \<open>The body of the inner \<^verbatim>\<open>headers.forEach\<close>: the state is the object and \<^verbatim>\<open>missingInRow\<close>.\<close>

definition cellStep :: "row \<Rightarrow> nat \<Rightarrow> missingInfo obj \<times> nat \<Rightarrow> string \<Rightarrow> missingInfo obj \<times> nat" where
  "cellStep r i st header =
     (if isMissing (getCell r header)
      then (obj_upd header (\<lambda>e. e\<lparr>mvCount := mvCount e + 1, positions := positions e @ [i]\<rparr>) (fst st),
            snd st + 1)
      else st)"

fun missingLoop ::
  "string list \<Rightarrow> row list \<Rightarrow> nat \<Rightarrow> missingInfo obj \<Rightarrow> rowMissing list
     \<Rightarrow> missingInfo obj \<times> rowMissing list" where
  "missingLoop hs [] i m br = (m, br)"
| "missingLoop hs (r # rs) i m br =
     (let st = foldl (cellStep r i) (m, 0) hs;
          missingInRow = snd st
      in missingLoop hs rs (i + 1) (fst st)
           (if missingInRow > 0
            then br @ [\<lparr>rowIndex = i, missingCount = missingInRow,
                         rowPercentage = jmul (jdiv (ofNat missingInRow) (ofNat (length hs))) (Fin 100)\<rparr>]
            else br))"

definition findMissingValues :: "dataset \<Rightarrow> missingReport" where
  "findMissingValues d =
     (let hs = headers d; rs = rows d;
          m0 = foldl (\<lambda>m header. obj_set header \<lparr>mvCount = 0, percentage = Fin 0, positions = []\<rparr> m) [] hs;
          lp = missingLoop hs rs 0 m0 [];
          missingByColumn =
            foldl (\<lambda>m header.
                     obj_upd header
                       (\<lambda>e. e\<lparr>percentage := jmul (jdiv (ofNat (mvCount e)) (ofNat (length rs))) (Fin 100)\<rparr>) m)
                  (fst lp) hs;
          totalCells = length hs * length rs;
          total = foldl (\<lambda>s col. s + mvCount col) 0 (obj_values missingByColumn);
          columnsWithMissing = length (filter (\<lambda>col. mvCount col > 0) (obj_values missingByColumn));
          percentMissing = jmul (jdiv (ofNat total) (ofNat totalCells)) (Fin 100);
          columnMissingPenalty = jmul (jdiv (ofNat columnsWithMissing) (ofNat (length hs))) (Fin 15);
          strictCompletenessScore =
            Math_max (Fin 0) (jsub (jsub (Fin 100) percentMissing) columnMissingPenalty)
      in \<lparr>byColumn = missingByColumn,
          byRow = snd lp,
          totalMissing = total,
          missingPercentage = jmul (jdiv (ofNat total) (ofNat totalCells)) (Fin 100),
          completenessScore = strictCompletenessScore\<rparr>)"

section \<open>findDuplicates\<close>

text \<open>
  \<^verbatim>\<open>Array.prototype.sort\<close> without a comparator moves the undefined elements to the end and
  sorts the others by their strings, in code-unit order; the sort is stable.
\<close>

definition defaultSort :: "host \<Rightarrow> cell list \<Rightarrow> cell list" where
  "defaultSort h xs =
     sort_key (cellToString h) (filter (\<lambda>v. v \<noteq> Undefined) xs) @ filter (\<lambda>v. v = Undefined) xs"

definition hexDigit :: "nat \<Rightarrow> char" where
  "hexDigit n = ''0123456789abcdef'' ! n"

definition quoteChar :: "char \<Rightarrow> string" where
  "quoteChar c =
     (if c = CHR 0x22 then [CHR 0x5C, CHR 0x22]
      else if c = CHR 0x5C then [CHR 0x5C, CHR 0x5C]
      else if c = CHR 0x08 then [CHR 0x5C, CHR ''b'']
      else if c = CHR 0x0C then [CHR 0x5C, CHR ''f'']
      else if c = CHR 0x0A then [CHR 0x5C, CHR ''n'']
      else if c = CHR 0x0D then [CHR 0x5C, CHR ''r'']
      else if c = CHR 0x09 then [CHR 0x5C, CHR ''t'']
      else if (of_char c :: nat) < 32
      then [CHR 0x5C, CHR ''u'', CHR ''0'', CHR ''0'',
            hexDigit ((of_char c :: nat) div 16), hexDigit ((of_char c :: nat) mod 16)]
      else [c])"

definition quoteJSON :: "string \<Rightarrow> string" where
  "quoteJSON s = [CHR 0x22] @ concat (map quoteChar s) @ [CHR 0x22]"

text \<open>An element of an array under \<^verbatim>\<open>JSON.stringify\<close>: undefined, NaN and the infinities print as null.\<close>

fun jsonElement :: "host \<Rightarrow> cell \<Rightarrow> string" where
  "jsonElement h Undefined = ''null''"
| "jsonElement h Null = ''null''"
| "jsonElement h (Num (Fin a)) = numToString h a"
| "jsonElement h (Num _) = ''null''"
| "jsonElement h (Text s) = quoteJSON s"
| "jsonElement h (Bool b) = (if b then ''true'' else ''false'')"

fun joinComma :: "string list \<Rightarrow> string" where
  "joinComma [] = []"
| "joinComma [x] = x"
| "joinComma (x # xs) = x @ '','' @ joinComma xs"

definition JSON_stringify :: "host \<Rightarrow> cell list \<Rightarrow> string" where
  "JSON_stringify h xs = ''['' @ joinComma (map (jsonElement h) xs) @ '']''"

definition rowHash :: "host \<Rightarrow> string list \<Rightarrow> row \<Rightarrow> string" where
  "rowHash h hs r = JSON_stringify h (defaultSort h (map (\<lambda>header. getCell r header) hs))"

record dupEntry =
  originalRow :: nat
  duplicateRow :: nat
  data :: row

record duplicateReport =
  dupCount :: nat
  dupPercentage :: jsnum
  duplicates :: "dupEntry list"
  uniquenessScore :: jsnum

fun dupLoop ::
  "host \<Rightarrow> string list \<Rightarrow> row list \<Rightarrow> nat \<Rightarrow> (string \<rightharpoonup> nat) \<Rightarrow> dupEntry list \<Rightarrow> dupEntry list" where
  "dupLoop h hs [] i seen dups = dups"
| "dupLoop h hs (r # rs) i seen dups =
     (case seen (rowHash h hs r) of
        Some originalIndex \<Rightarrow>
          dupLoop h hs rs (i + 1) seen
            (dups @ [\<lparr>originalRow = originalIndex, duplicateRow = i, data = r\<rparr>])
      | None \<Rightarrow> dupLoop h hs rs (i + 1) (seen(rowHash h hs r \<mapsto> i)) dups)"

text \<open>The size of \<^verbatim>\<open>new Set(xs)\<close>.\<close>

definition setSize :: "cell list \<Rightarrow> nat" where
  "setSize xs = length (remdups xs)"

definition cardinalityStep :: "dataset \<Rightarrow> jsnum \<Rightarrow> string \<Rightarrow> jsnum" where
  "cardinalityStep d totalUniquenessPenalty header =
     (let columnValues = filter nonNull (columnValues d header) in
      if length columnValues > 0
      then let uniqueValues = setSize columnValues;
               uniqueRatio = jdiv (ofNat uniqueValues) (ofNat (length columnValues))
           in if jlt uniqueRatio (Fin 0.8)
              then jadd totalUniquenessPenalty (jmul (jsub (Fin 0.8) uniqueRatio) (Fin 10))
              else totalUniquenessPenalty
      else totalUniquenessPenalty)"

definition findDuplicates :: "host \<Rightarrow> dataset \<Rightarrow> duplicateReport" where
  "findDuplicates h d =
     (let hs = headers d; rs = rows d;
          dups = dupLoop h hs rs 0 Map.empty [];
          totalUniquenessPenalty = foldl (cardinalityStep d) (Fin 0) hs;
          score0 = jsub (Fin 100) (jmul (jdiv (ofNat (length dups)) (ofNat (length rs))) (Fin 100));
          score = Math_max (Fin 0) (jsub score0 totalUniquenessPenalty)
      in \<lparr>dupCount = length dups,
          dupPercentage = jmul (jdiv (ofNat (length dups)) (ofNat (length rs))) (Fin 100),
          duplicates = dups,
          uniquenessScore = score\<rparr>)"

section \<open>analyzeDataTypes\<close>

definition analyzeDataTypes :: "host \<Rightarrow> dataset \<Rightarrow> typeinfo obj" where
  "analyzeDataTypes h d =
     foldl (\<lambda>typeAnalysis header. obj_set header (detectDataType h (columnValues d header)) typeAnalysis)
       [] (headers d)"

section \<open>calculateStatistics and calculateMode\<close>

record colStatistics =
  numCount :: nat
  st_min :: jsnum
  st_max :: jsnum
  mean :: jsnum
  median :: jsnum
  mode :: "jsnum option"
  stdDev :: jsnum
  variance :: jsnum
  q1 :: jsnum
  q2 :: jsnum
  q3 :: jsnum
  st_range :: jsnum

text \<open>
  \<^verbatim>\<open>sort((a, b) => a - b)\<close> on numbers that are not NaN: the comparator is consistent
  (the difference of two equal infinities is NaN, which counts as 0), so the result is the
  ascending arrangement. The key embeds the numbers into a linear order.
\<close>

fun numKey :: "jsnum \<Rightarrow> nat \<times> real" where
  "numKey NInf = (0, 0)"
| "numKey (Fin a) = (1, a)"
| "numKey PInf = (2, 0)"
| "numKey NaN = (3, 0)"

definition numericSort :: "jsnum list \<Rightarrow> jsnum list" where
  "numericSort xs = sort_key numKey xs"

text \<open>
  calculateMode keeps the frequencies in an object keyed by the number's string; the state
  of its loop is that object, \<^verbatim>\<open>maxFreq\<close> and \<^verbatim>\<open>mode\<close> (null at the start).
\<close>

definition modeStep ::
  "host \<Rightarrow> (string \<rightharpoonup> nat) \<times> nat \<times> jsnum option \<Rightarrow> jsnum \<Rightarrow> (string \<rightharpoonup> nat) \<times> nat \<times> jsnum option" where
  "modeStep h st val =
     (let frequency = fst st; maxFreq = fst (snd st);
          k = jsnumToString h val;
          f = (case frequency k of None \<Rightarrow> 0 | Some c \<Rightarrow> c) + 1
      in if f > maxFreq then (frequency(k \<mapsto> f), f, Some val)
         else (frequency(k \<mapsto> f), maxFreq, snd (snd st)))"

definition calculateMode :: "host \<Rightarrow> jsnum list \<Rightarrow> jsnum option" where
  "calculateMode h vals = snd (snd (foldl (modeStep h) (Map.empty, 0, None) vals))"

definition numericValues :: "host \<Rightarrow> cell list \<Rightarrow> jsnum list" where
  "numericValues h vals = filter (\<lambda>v. \<not> isNaN v) (map (toNumeric h) (filter nonNull vals))"

definition quartileIndex :: "nat \<Rightarrow> real \<Rightarrow> nat" where
  "quartileIndex n p = nat \<lfloor>real n * p\<rfloor>"

definition calculateStatistics :: "host \<Rightarrow> cell list \<Rightarrow> colStatistics option" where
  "calculateStatistics h vals =
     (let nums = numericValues h vals in
      if length nums = 0 then None
      else
        let sorted = numericSort nums;
            sm = foldl jadd (Fin 0) nums;
            mn = jdiv sm (ofNat (length nums));
            squaredDiffs = map (\<lambda>val. Math_pow2 (jsub val mn)) nums;
            var = jdiv (foldl jadd (Fin 0) squaredDiffs) (ofNat (length nums));
            q1Index = quartileIndex (length sorted) 0.25;
            q2Index = quartileIndex (length sorted) 0.5;
            q3Index = quartileIndex (length sorted) 0.75
        in Some \<lparr>numCount = length nums,
                 st_min = sorted ! 0,
                 st_max = sorted ! (length sorted - 1),
                 mean = mn,
                 median = sorted ! q2Index,
                 mode = calculateMode h nums,
                 stdDev = Math_sqrt var,
                 variance = var,
                 q1 = sorted ! q1Index,
                 q2 = sorted ! q2Index,
                 q3 = sorted ! q3Index,
                 st_range = jsub (sorted ! (length sorted - 1)) (sorted ! 0)\<rparr>)"

section \<open>detectOutliers\<close>

datatype outlierKind = KLow | KHigh

record outlier =
  index :: nat
  outValue :: jsnum
  outType :: outlierKind

record outlierReport =
  outliers :: "outlier list"
  outCount :: nat
  outPercentage :: jsnum
  lowerBound :: "jsnum option"
  upperBound :: "jsnum option"

text \<open>The \<^verbatim>\<open>values.forEach((value, index) => ...)\<close> of detectOutliers, the index passed along.\<close>

fun outlierLoop :: "host \<Rightarrow> jsnum \<Rightarrow> jsnum \<Rightarrow> cell list \<Rightarrow> nat \<Rightarrow> outlier list \<Rightarrow> outlier list" where
  "outlierLoop h lo hi [] i acc = acc"
| "outlierLoop h lo hi (v # vs) i acc =
     (let numValue = toNumeric h v in
      outlierLoop h lo hi vs (i + 1)
        (if \<not> isNaN numValue \<and> (jlt numValue lo \<or> jgt numValue hi)
         then acc @ [\<lparr>index = i, outValue = numValue,
                       outType = (if jlt numValue lo then KLow else KHigh)\<rparr>]
         else acc))"

definition detectOutliers :: "host \<Rightarrow> cell list \<Rightarrow> outlierReport" where
  "detectOutliers h vals =
     (case calculateStatistics h vals of
        None \<Rightarrow> \<lparr>outliers = [], outCount = 0, outPercentage = Fin 0,
                  lowerBound = None, upperBound = None\<rparr>
      | Some stats \<Rightarrow>
          let iqr = fsub (q3 stats) (q1 stats);
              lo = fsub (q1 stats) (fmul (Fin 1.5) iqr);
              hi = fadd (q3 stats) (fmul (Fin 1.5) iqr);
              outs = outlierLoop h lo hi vals 0 []
          in \<lparr>outliers = outs,
              outCount = length outs,
              outPercentage = jmul (jdiv (ofNat (length outs)) (ofNat (length vals))) (Fin 100),
              lowerBound = Some lo,
              upperBound = Some hi\<rparr>)"

section \<open>analyzeDataQuality\<close>

text \<open>
  The explanations and recommendations, which the engine takes from another module and
  which no score or issue depends on, are left out of the result.
\<close>

record columnStat =
  colType :: typeinfo
  missing :: "missingInfo option"
  unique :: nat
  uniquePercentage :: jsnum
  statistics :: "colStatistics option"
  colOutliers :: "outlierReport option"

text \<open>
  \<open>statistics\<close> and \<open>colOutliers\<close> are \<open>None\<close> on a column that is not numeric, where the
  source leaves the properties out; \<open>statistics\<close> is also \<open>None\<close> where the source stores
  null. \<open>missing\<close> is the lookup \<^verbatim>\<open>missingValues.byColumn[header]\<close>.
\<close>

datatype issueType = Missing | Duplicate | Inconsistent | Format | Outlier

datatype severityLevel = Low | Medium | High

record issue =
  issueType :: issueType
  severity :: severityLevel
  column :: "string option"
  description :: string
  issueCount :: "nat option"
  issueConfidence :: "jsnum option"

record scores =
  completeness :: jsnum
  uniqueness :: jsnum
  validity :: jsnum
  consistency :: jsnum

record summary =
  totalRows :: nat
  totalColumns :: nat
  totalCells :: nat
  missingCells :: nat
  duplicateRows :: nat
  issuesTotal :: nat

record qualityAnalysis =
  overallScore :: jsnum
  dimensionScores :: scores
  missingValues :: missingReport
  duplicatesReport :: duplicateReport
  dataTypes :: "typeinfo obj"
  columnStats :: "columnStat obj"
  issues :: "issue list"
  analysisSummary :: summary

definition columnStatOf :: "host \<Rightarrow> dataset \<Rightarrow> missingReport \<Rightarrow> typeinfo obj \<Rightarrow> string \<Rightarrow> columnStat" where
  "columnStatOf h d mv dts header =
     (let vals = columnValues d header;
          typeInfo = the (obj_get dts header)
      in \<lparr>colType = typeInfo,
          missing = obj_get (byColumn mv) header,
          unique = setSize (filter nonNull vals),
          uniquePercentage = jmul (jdiv (ofNat (setSize vals)) (ofNat (length vals))) (Fin 100),
          statistics = (if type typeInfo = TNumber then calculateStatistics h vals else None),
          colOutliers = (if type typeInfo = TNumber then Some (detectOutliers h vals) else None)\<rparr>)"

subsection \<open>Validity\<close>

datatype strFormat = FNumeric | FLowercase | FUppercase | FLowercasePhrase | FTitlecasePhrase | FMixed

definition formatOf :: "string \<Rightarrow> strFormat" where
  "formatOf str =
     (if str \<noteq> [] \<and> list_all isDigit str then FNumeric
      else if str \<noteq> [] \<and> list_all isLower str then FLowercase
      else if str \<noteq> [] \<and> list_all isUpper str then FUppercase
      else if str \<noteq> [] \<and> isLower (hd str) \<and> list_all (\<lambda>c. isLower c \<or> isSpace c) (tl str)
      then FLowercasePhrase
      else if str \<noteq> [] \<and> isUpper (hd str) \<and> list_all (\<lambda>c. isLower c \<or> isSpace c) (tl str)
      then FTitlecasePhrase
      else FMixed)"

definition nullTokens :: "string list" where
  "nullTokens = [[], ''null'', ''NULL'', ''N/A'', ''n/a'', ''-'']"

definition isNullToken :: "cell \<Rightarrow> bool" where
  "isNullToken v = (case v of Text s \<Rightarrow> s \<in> set nullTokens | _ \<Rightarrow> False)"

definition validityStep :: "host \<Rightarrow> dataset \<Rightarrow> nat \<Rightarrow> string \<times> columnStat \<Rightarrow> nat" where
  "validityStep h d validityIssues p =
     (let vals = filter nonNull (columnValues d (fst p)) in
      if length vals = 0 then validityIssues
      else
        let formats = map (\<lambda>v. formatOf (cellToString h v)) vals;
            v1 = (if type (colType (snd p)) = TString \<and> length (remdups formats) > 1
                  then validityIssues + 2 else validityIssues);
            nullVariations = length (filter isNullToken vals)
        in if nullVariations > 0 \<and> nullVariations < length vals then v1 + 1 else v1)"

subsection \<open>Consistency and the format penalties\<close>

definition hasSymbol :: "host \<Rightarrow> cell \<Rightarrow> bool" where
  "hasSymbol h v = (\<exists>c \<in> set ''$,()''. str_includes (cellToString h v) c)"

definition formatInconsistencyStep :: "host \<Rightarrow> dataset \<Rightarrow> nat \<Rightarrow> string \<times> columnStat \<Rightarrow> nat" where
  "formatInconsistencyStep h d pen p =
     (if type (colType (snd p)) = TNumber
      then let vals = filter truthy (columnValues d (fst p));
               withSymbols = length (filter (hasSymbol h) vals);
               withoutSymbols = length vals - withSymbols
           in if withSymbols > 0 \<and> withoutSymbols > 0 then pen + 3 else pen
      else pen)"

definition isFormatted3 :: "host \<Rightarrow> cell \<Rightarrow> bool" where
  "isFormatted3 h v =
     (truthy v \<and> (str_includes (cellToString h v) (CHR ''$'') \<or> str_includes (cellToString h v) (CHR '','')
                  \<or> str_includes (cellToString h v) (CHR ''('')))"

definition formatIssuesStep :: "host \<Rightarrow> dataset \<Rightarrow> nat \<Rightarrow> string \<times> columnStat \<Rightarrow> nat" where
  "formatIssuesStep h d pen p =
     (if type (colType (snd p)) = TNumber
      then let vals = columnValues d (fst p);
               formattedCount = length (filter (isFormatted3 h) vals)
           in if formattedCount > 0 \<and> formattedCount < length vals then pen + 5 else pen
      else pen)"

subsection \<open>Issues\<close>

definition natToString :: "host \<Rightarrow> nat \<Rightarrow> string" where
  "natToString h n = numToString h (real n)"

definition missingSeverity :: "jsnum \<Rightarrow> severityLevel" where
  "missingSeverity pct =
     (if jgt pct (Fin 50) then High
      else if jgt pct (Fin 25) then High
      else if jgt pct (Fin 10) then Medium
      else if jgt pct (Fin 0) then Low
      else Low)"

definition missingIssueStep :: "host \<Rightarrow> issue list \<Rightarrow> string \<times> missingInfo \<Rightarrow> issue list" where
  "missingIssueStep h acc p =
     (let col = fst p; dat = snd p in
      if mvCount dat > 0
      then acc @ [\<lparr>issueType = Missing,
                    severity = missingSeverity (percentage dat),
                    column = Some col,
                    description = col @ '' has '' @ natToString h (mvCount dat) @ '' missing values (''
                                  @ jsnumToFixed h 1 (percentage dat) @ ''%)'',
                    issueCount = Some (mvCount dat),
                    issueConfidence = None\<rparr>]
      else acc)"

definition duplicateIssue :: "host \<Rightarrow> duplicateReport \<Rightarrow> issue" where
  "duplicateIssue h dr =
     \<lparr>issueType = Duplicate,
      severity = High,
      column = None,
      description = ''Found '' @ natToString h (dupCount dr) @ '' duplicate rows (''
                    @ jsnumToFixed h 1 (dupPercentage dr) @ ''%)'',
      issueCount = Some (dupCount dr),
      issueConfidence = None\<rparr>"

fun typeName :: "dtype \<Rightarrow> string" where
  "typeName TEmpty = ''empty''"
| "typeName TNumber = ''number''"
| "typeName TString = ''string''"
| "typeName TBoolean = ''boolean''"
| "typeName TDate = ''date''"

definition typeIssueStep :: "host \<Rightarrow> issue list \<Rightarrow> string \<times> typeinfo \<Rightarrow> issue list" where
  "typeIssueStep h acc p =
     (let col = fst p; ti = snd p in
      if mixedTypes ti
      then acc @ [\<lparr>issueType = Inconsistent,
                    severity = (if jlt (confidence ti) (Fin 0.75) then High else Medium),
                    column = Some col,
                    description = col @ '' has mixed data types (''
                                  @ jsnumToFixed h 0 (jmul (confidence ti) (Fin 100)) @ ''% ''
                                  @ typeName (type ti) @ '')'',
                    issueCount = None,
                    issueConfidence = Some (confidence ti)\<rparr>]
      else acc)"

definition isFormatted4 :: "host \<Rightarrow> cell \<Rightarrow> bool" where
  "isFormatted4 h v =
     (str_includes (cellToString h v) (CHR ''$'') \<or> str_includes (cellToString h v) (CHR '','')
      \<or> str_includes (cellToString h v) (CHR ''('') \<or> str_includes (cellToString h v) (CHR '')''))"

definition formatIssueStep :: "host \<Rightarrow> dataset \<Rightarrow> issue list \<Rightarrow> string \<times> columnStat \<Rightarrow> issue list" where
  "formatIssueStep h d acc p =
     (let col = fst p in
      if type (colType (snd p)) = TNumber
      then let vals = filter truthy (columnValues d col);
               formattedValues = filter (isFormatted4 h) vals;
               unformattedValues = filter (\<lambda>v. \<not> isFormatted4 h v) vals
           in if length formattedValues > 0 \<and> length unformattedValues > 0
              then acc @ [\<lparr>issueType = Format,
                            severity = Low,
                            column = Some col,
                            description = col @ '' has inconsistent number formatting (''
                                          @ natToString h (length formattedValues) @ '' formatted, ''
                                          @ natToString h (length unformattedValues) @ '' unformatted)'',
                            issueCount = Some (length formattedValues + length unformattedValues),
                            issueConfidence = None\<rparr>]
              else acc
      else acc)"

definition outlierSeverity :: "jsnum \<Rightarrow> severityLevel" where
  "outlierSeverity pct = (if jgt pct (Fin 5) then High else if jgt pct (Fin 2) then Medium else Low)"

definition outlierIssueStep :: "host \<Rightarrow> issue list \<Rightarrow> string \<times> columnStat \<Rightarrow> issue list" where
  "outlierIssueStep h acc p =
     (let col = fst p in
      case colOutliers (snd p) of
        None \<Rightarrow> acc
      | Some outs \<Rightarrow>
          if outCount outs > 0
          then acc @ [\<lparr>issueType = Outlier,
                        severity = outlierSeverity (outPercentage outs),
                        column = Some col,
                        description = col @ '' has '' @ natToString h (outCount outs) @ '' outliers (''
                                      @ jsnumToFixed h 1 (outPercentage outs) @ ''%)'',
                        issueCount = Some (outCount outs),
                        issueConfidence = None\<rparr>]
          else acc)"

definition generateIssues ::
  "host \<Rightarrow> dataset \<Rightarrow> missingReport \<Rightarrow> duplicateReport \<Rightarrow> typeinfo obj \<Rightarrow> columnStat obj \<Rightarrow> issue list" where
  "generateIssues h d mv dr dts cs =
     (let i1 = foldl (missingIssueStep h) [] (obj_entries (byColumn mv));
          i2 = (if dupCount dr > 0 then i1 @ [duplicateIssue h dr] else i1);
          i3 = foldl (typeIssueStep h) i2 (obj_entries dts);
          i4 = foldl (formatIssueStep h d) i3 (obj_entries cs)
      in foldl (outlierIssueStep h) i4 (obj_entries cs))"

subsection \<open>The analysis\<close>

definition analyzeDataQuality :: "host \<Rightarrow> dataset \<Rightarrow> qualityAnalysis" where
  "analyzeDataQuality h d =
     (let mv = findMissingValues d;
          dr = findDuplicates h d;
          dts = analyzeDataTypes h d;
          cs = foldl (\<lambda>acc header. obj_set header (columnStatOf h d mv dts header) acc) [] (headers d);
          completenessSc = completenessScore mv;
          uniquenessSc = uniquenessScore dr;
          validityIssues = foldl (validityStep h d) 0 (obj_entries cs);
          validitySc = Math_max (Fin 0) (jsub (Fin 100) (ofNat validityIssues));
          mixedTypeColumns = length (filter mixedTypes (obj_values dts));
          mixedTypesPenalty = jmul (jdiv (ofNat mixedTypeColumns) (ofNat (length (headers d)))) (Fin 100);
          formatInconsistencyPenalty = foldl (formatInconsistencyStep h d) 0 (obj_entries cs);
          consistencySc =
            Math_max (Fin 0)
              (jsub (jsub (Fin 100) mixedTypesPenalty) (ofNat formatInconsistencyPenalty));
          columnsWithMissing = length (filter (\<lambda>m. mvCount m > 0) (obj_values (byColumn mv)));
          missingColumnsPenalty =
            jmul (jdiv (ofNat columnsWithMissing) (ofNat (length (headers d)))) (Fin 20);
          formatIssuesPenalty = foldl (formatIssuesStep h d) 0 (obj_entries cs);
          baseScore =
            jadd (jadd (jadd (jmul completenessSc (Fin 0.40)) (jmul uniquenessSc (Fin 0.30)))
                       (jmul validitySc (Fin 0.20)))
                 (jmul consistencySc (Fin 0.10));
          overall =
            Math_max (Fin 0) (jsub (jsub baseScore missingColumnsPenalty) (ofNat formatIssuesPenalty));
          iss = generateIssues h d mv dr dts cs
      in \<lparr>overallScore = overall,
          dimensionScores =
            \<lparr>completeness = completenessSc, uniqueness = uniquenessSc,
             validity = validitySc, consistency = consistencySc\<rparr>,
          missingValues = mv,
          duplicatesReport = dr,
          dataTypes = dts,
          columnStats = cs,
          issues = iss,
          analysisSummary =
            \<lparr>totalRows = length (rows d),
             totalColumns = length (headers d),
             totalCells = length (rows d) * length (headers d),
             missingCells = totalMissing mv,
             duplicateRows = dupCount dr,
             issuesTotal = length iss\<rparr>\<rparr>)"

section \<open>The engine with its exceptions\<close>

text \<open>
  The definitions above give the value that each function of the engine returns. What
  follows is the same code with the operations that can throw on the cells of a dataset: a
  call of \<^verbatim>\<open>toString\<close> on null or undefined, a call of \<^verbatim>\<open>trim\<close> or \<^verbatim>\<open>toLowerCase\<close> on a
  value that is not a string, a read of a property of \<^verbatim>\<open>object[header]\<close> when the object
  has no such entry, and \<^verbatim>\<open>reduce\<close> without an initial value on an empty array. Each throws
  a TypeError, and an exception ends the function that runs the operation and every caller,
  as nothing in the engine catches it. The other operations of the engine are defined on
  every cell: comparisons, \<^verbatim>\<open>typeof\<close>, \<^verbatim>\<open>isNaN\<close>, \<^verbatim>\<open>parseFloat\<close>, the regular
  expression tests, \<^verbatim>\<open>JSON.stringify\<close>, \<^verbatim>\<open>toFixed\<close> with one or no digit on a number,
  arithmetic, and the reads of \<^verbatim>\<open>row[header]\<close> and of array elements. findDuplicates,
  calculateStatistics, calculateMode and detectOutliers use no other operation (the test
  \<^verbatim>\<open>if (!stats)\<close> of detectOutliers is the distinction of the two cases of the optional
  statistics), so the functions below call them as they are. The explanations and
  recommendations are
  left out here too: their generators concatenate the strings and numbers of the issues that
  the engine has built.
\<close>

datatype jsError = TypeError

datatype 'a completion = Returns 'a | Throws jsError

definition andThen :: "'a completion \<Rightarrow> ('a \<Rightarrow> 'b completion) \<Rightarrow> 'b completion" where
  "andThen m f = (case m of Returns x \<Rightarrow> f x | Throws e \<Rightarrow> Throws e)"

text \<open>\<^verbatim>\<open>map\<close>, \<^verbatim>\<open>filter\<close> and a \<^verbatim>\<open>forEach\<close> that updates a state, with a callback that can throw.\<close>

fun mapRun :: "('a \<Rightarrow> 'b completion) \<Rightarrow> 'a list \<Rightarrow> 'b list completion" where
  "mapRun f [] = Returns []"
| "mapRun f (x # xs) = andThen (f x) (\<lambda>y. andThen (mapRun f xs) (\<lambda>ys. Returns (y # ys)))"

fun filterRun :: "('a \<Rightarrow> bool completion) \<Rightarrow> 'a list \<Rightarrow> 'a list completion" where
  "filterRun f [] = Returns []"
| "filterRun f (x # xs) =
     andThen (f x) (\<lambda>keep. andThen (filterRun f xs) (\<lambda>ys. Returns (if keep then x # ys else ys)))"

fun foldlRun :: "('s \<Rightarrow> 'a \<Rightarrow> 's completion) \<Rightarrow> 's \<Rightarrow> 'a list \<Rightarrow> 's completion" where
  "foldlRun f s [] = Returns s"
| "foldlRun f s (x # xs) = andThen (f s x) (\<lambda>s'. foldlRun f s' xs)"

fun typeOf :: "cell \<Rightarrow> string" where
  "typeOf Undefined = ''undefined''"
| "typeOf Null = ''object''"
| "typeOf (Num n) = ''number''"
| "typeOf (Text s) = ''string''"
| "typeOf (Bool b) = ''boolean''"

text \<open>The calls \<^verbatim>\<open>v.toString()\<close>, \<^verbatim>\<open>v.trim()\<close> and \<^verbatim>\<open>v.toLowerCase()\<close>.\<close>

fun toStringMethod :: "host \<Rightarrow> cell \<Rightarrow> string completion" where
  "toStringMethod h Undefined = Throws TypeError"
| "toStringMethod h Null = Throws TypeError"
| "toStringMethod h v = Returns (cellToString h v)"

fun trimMethod :: "cell \<Rightarrow> string completion" where
  "trimMethod (Text s) = Returns (trim s)"
| "trimMethod v = Throws TypeError"

fun toLowerCaseMethod :: "cell \<Rightarrow> string completion" where
  "toLowerCaseMethod (Text s) = Returns (toLowerCase s)"
| "toLowerCaseMethod v = Throws TypeError"

text \<open>The entry \<^verbatim>\<open>object[key]\<close> as the engine uses it, to read or to write one of its properties.\<close>

definition entryOf :: "'v obj \<Rightarrow> string \<Rightarrow> 'v completion" where
  "entryOf ob k = (case obj_get ob k of None \<Rightarrow> Throws TypeError | Some v \<Rightarrow> Returns v)"

subsection \<open>detectDataType\<close>

definition isBooleanValueRun :: "cell \<Rightarrow> bool completion" where
  "isBooleanValueRun v =
     (if typeOf v = ''boolean'' then Returns True
      else if typeOf v = ''string''
      then andThen (toLowerCaseMethod v) (\<lambda>lowered. Returns (lowered \<in> set booleanWords))
      else Returns False)"

definition tallyStepRun :: "host \<Rightarrow> tally \<Rightarrow> cell \<Rightarrow> tally completion" where
  "tallyStepRun h t v =
     andThen (isBooleanValueRun v) (\<lambda>isBoolean.
       Returns (if isBoolean then t\<lparr>booleanCount := booleanCount t + 1\<rparr>
                else if isNumberValue h v then t\<lparr>numberCount := numberCount t + 1\<rparr>
                else if isValidDate h v then t\<lparr>dateCount := dateCount t + 1\<rparr>
                else t\<lparr>stringCount := stringCount t + 1\<rparr>))"

definition reduceMaxRun :: "typeEntry list \<Rightarrow> typeEntry completion" where
  "reduceMaxRun ts =
     (case ts of
        [] \<Rightarrow> Throws TypeError
      | t # rest \<Rightarrow> Returns (foldl (\<lambda>mx curr. if te_count curr > te_count mx then curr else mx) t rest))"

definition detectDataTypeRun :: "host \<Rightarrow> cell list \<Rightarrow> typeinfo completion" where
  "detectDataTypeRun h vals =
     (let nonNullValues = filter nonNull vals in
      if length nonNullValues = 0
      then Returns \<lparr>type = TEmpty, confidence = Fin 1, nullable = True, mixedTypes = False\<rparr>
      else
        andThen (foldlRun (tallyStepRun h)
                   \<lparr>numberCount = 0, stringCount = 0, booleanCount = 0, dateCount = 0\<rparr> nonNullValues)
          (\<lambda>t. let n = length nonNullValues;
                   types = typeEntries t n
               in andThen (reduceMaxRun types) (\<lambda>dominant.
                    Returns \<lparr>type = te_type dominant,
                             confidence = te_confidence dominant,
                             nullable = (length vals > length nonNullValues),
                             mixedTypes = (length (filter (\<lambda>e. te_count e > 0) types) > 1)\<rparr>)))"

subsection \<open>findMissingValues\<close>

definition isMissingRun :: "cell \<Rightarrow> bool completion" where
  "isMissingRun v =
     (if v = Null \<or> v = Undefined \<or> v = Text [] then Returns True
      else if typeOf v = ''string'' then andThen (trimMethod v) (\<lambda>trimmed. Returns (trimmed = []))
      else Returns False)"

definition cellStepRun ::
  "row \<Rightarrow> nat \<Rightarrow> missingInfo obj \<times> nat \<Rightarrow> string \<Rightarrow> (missingInfo obj \<times> nat) completion" where
  "cellStepRun r i st header =
     andThen (isMissingRun (getCell r header)) (\<lambda>missingValue.
       if missingValue
       then andThen (entryOf (fst st) header) (\<lambda>entry.
              Returns (obj_upd header (\<lambda>e. e\<lparr>mvCount := mvCount e + 1, positions := positions e @ [i]\<rparr>) (fst st),
                       snd st + 1))
       else Returns st)"

fun missingLoopRun ::
  "string list \<Rightarrow> row list \<Rightarrow> nat \<Rightarrow> missingInfo obj \<Rightarrow> rowMissing list
     \<Rightarrow> (missingInfo obj \<times> rowMissing list) completion" where
  "missingLoopRun hs [] i m br = Returns (m, br)"
| "missingLoopRun hs (r # rs) i m br =
     andThen (foldlRun (cellStepRun r i) (m, 0) hs) (\<lambda>st.
       let missingInRow = snd st
       in missingLoopRun hs rs (i + 1) (fst st)
            (if missingInRow > 0
             then br @ [\<lparr>rowIndex = i, missingCount = missingInRow,
                          rowPercentage = jmul (jdiv (ofNat missingInRow) (ofNat (length hs))) (Fin 100)\<rparr>]
             else br))"

definition percentageStepRun :: "nat \<Rightarrow> missingInfo obj \<Rightarrow> string \<Rightarrow> missingInfo obj completion" where
  "percentageStepRun n m header =
     andThen (entryOf m header) (\<lambda>entry.
       Returns (obj_upd header (\<lambda>e. e\<lparr>percentage := jmul (jdiv (ofNat (mvCount e)) (ofNat n)) (Fin 100)\<rparr>) m))"

definition findMissingValuesRun :: "dataset \<Rightarrow> missingReport completion" where
  "findMissingValuesRun d =
     (let hs = headers d; rs = rows d;
          m0 = foldl (\<lambda>m header. obj_set header \<lparr>mvCount = 0, percentage = Fin 0, positions = []\<rparr> m) [] hs
      in andThen (missingLoopRun hs rs 0 m0 []) (\<lambda>lp.
         andThen (foldlRun (percentageStepRun (length rs)) (fst lp) hs) (\<lambda>missingByColumn.
           let totalCells = length hs * length rs;
               total = foldl (\<lambda>s col. s + mvCount col) 0 (obj_values missingByColumn);
               columnsWithMissing = length (filter (\<lambda>col. mvCount col > 0) (obj_values missingByColumn));
               percentMissing = jmul (jdiv (ofNat total) (ofNat totalCells)) (Fin 100);
               columnMissingPenalty = jmul (jdiv (ofNat columnsWithMissing) (ofNat (length hs))) (Fin 15);
               strictCompletenessScore =
                 Math_max (Fin 0) (jsub (jsub (Fin 100) percentMissing) columnMissingPenalty)
           in Returns \<lparr>byColumn = missingByColumn,
                       byRow = snd lp,
                       totalMissing = total,
                       missingPercentage = jmul (jdiv (ofNat total) (ofNat totalCells)) (Fin 100),
                       completenessScore = strictCompletenessScore\<rparr>)))"

subsection \<open>analyzeDataTypes and the column statistics\<close>

definition analyzeDataTypesRun :: "host \<Rightarrow> dataset \<Rightarrow> typeinfo obj completion" where
  "analyzeDataTypesRun h d =
     foldlRun (\<lambda>typeAnalysis header.
                 andThen (detectDataTypeRun h (columnValues d header)) (\<lambda>typeInfo.
                   Returns (obj_set header typeInfo typeAnalysis)))
       [] (headers d)"

text \<open>
  \<^verbatim>\<open>typeInfo\<close> is \<^verbatim>\<open>dataTypes[header]\<close>; the engine reads \<^verbatim>\<open>typeInfo.type\<close>. The entry
  \<^verbatim>\<open>missingValues.byColumn[header]\<close> is stored as it is found.
\<close>

definition columnStatOfRun ::
  "host \<Rightarrow> dataset \<Rightarrow> missingReport \<Rightarrow> typeinfo obj \<Rightarrow> string \<Rightarrow> columnStat completion" where
  "columnStatOfRun h d mv dts header =
     (let vals = columnValues d header
      in andThen (entryOf dts header) (\<lambda>typeInfo.
           Returns \<lparr>colType = typeInfo,
                    missing = obj_get (byColumn mv) header,
                    unique = setSize (filter nonNull vals),
                    uniquePercentage = jmul (jdiv (ofNat (setSize vals)) (ofNat (length vals))) (Fin 100),
                    statistics = (if type typeInfo = TNumber then calculateStatistics h vals else None),
                    colOutliers = (if type typeInfo = TNumber then Some (detectOutliers h vals) else None)\<rparr>))"

subsection \<open>The scores\<close>

definition validityStepRun :: "host \<Rightarrow> dataset \<Rightarrow> nat \<Rightarrow> string \<times> columnStat \<Rightarrow> nat completion" where
  "validityStepRun h d validityIssues p =
     (let vals = filter nonNull (columnValues d (fst p)) in
      if length vals = 0 then Returns validityIssues
      else
        andThen
          (if type (colType (snd p)) = TString
           then andThen (mapRun (\<lambda>v. andThen (toStringMethod h v) (\<lambda>str. Returns (formatOf str))) vals)
                  (\<lambda>formats. Returns (if length (remdups formats) > 1
                                      then validityIssues + 2 else validityIssues))
           else Returns validityIssues)
          (\<lambda>v1. let nullVariations = length (filter isNullToken vals)
                in Returns (if nullVariations > 0 \<and> nullVariations < length vals then v1 + 1 else v1)))"

definition hasSymbolRun :: "host \<Rightarrow> cell \<Rightarrow> bool completion" where
  "hasSymbolRun h v =
     andThen (toStringMethod h v) (\<lambda>str. Returns (\<exists>c \<in> set ''$,()''. str_includes str c))"

definition formatInconsistencyStepRun ::
  "host \<Rightarrow> dataset \<Rightarrow> nat \<Rightarrow> string \<times> columnStat \<Rightarrow> nat completion" where
  "formatInconsistencyStepRun h d pen p =
     (if type (colType (snd p)) = TNumber
      then let vals = filter truthy (columnValues d (fst p))
           in andThen (filterRun (hasSymbolRun h) vals) (\<lambda>symbolValues.
                let withSymbols = length symbolValues;
                    withoutSymbols = length vals - withSymbols
                in Returns (if withSymbols > 0 \<and> withoutSymbols > 0 then pen + 3 else pen))
      else Returns pen)"

text \<open>
  In the tests on several symbols the engine calls \<^verbatim>\<open>toString\<close> once for each symbol it
  looks for; the calls are on the same value and give the same string or throw alike, so the
  string is taken once.
\<close>

definition isFormatted3Run :: "host \<Rightarrow> cell \<Rightarrow> bool completion" where
  "isFormatted3Run h v =
     (if truthy v
      then andThen (toStringMethod h v) (\<lambda>str.
             Returns (str_includes str (CHR ''$'') \<or> str_includes str (CHR '','')
                      \<or> str_includes str (CHR ''('')))
      else Returns False)"

definition formatIssuesStepRun :: "host \<Rightarrow> dataset \<Rightarrow> nat \<Rightarrow> string \<times> columnStat \<Rightarrow> nat completion" where
  "formatIssuesStepRun h d pen p =
     (if type (colType (snd p)) = TNumber
      then let vals = columnValues d (fst p)
           in andThen (filterRun (isFormatted3Run h) vals) (\<lambda>formatted.
                let formattedCount = length formatted
                in Returns (if formattedCount > 0 \<and> formattedCount < length vals then pen + 5 else pen))
      else Returns pen)"

subsection \<open>The issues\<close>

definition isFormatted4Run :: "host \<Rightarrow> cell \<Rightarrow> bool completion" where
  "isFormatted4Run h v =
     andThen (toStringMethod h v) (\<lambda>str.
       Returns (str_includes str (CHR ''$'') \<or> str_includes str (CHR '','')
                \<or> str_includes str (CHR ''('') \<or> str_includes str (CHR '')'')))"

definition formatIssueStepRun ::
  "host \<Rightarrow> dataset \<Rightarrow> issue list \<Rightarrow> string \<times> columnStat \<Rightarrow> issue list completion" where
  "formatIssueStepRun h d acc p =
     (let col = fst p in
      if type (colType (snd p)) = TNumber
      then let vals = filter truthy (columnValues d col)
           in andThen (filterRun (isFormatted4Run h) vals) (\<lambda>formattedValues.
              andThen (filterRun (\<lambda>v. andThen (isFormatted4Run h v) (\<lambda>formatted. Returns (\<not> formatted))) vals)
                (\<lambda>unformattedValues.
                   Returns (if length formattedValues > 0 \<and> length unformattedValues > 0
                            then acc @ [\<lparr>issueType = Format,
                                          severity = Low,
                                          column = Some col,
                                          description = col @ '' has inconsistent number formatting (''
                                                        @ natToString h (length formattedValues) @ '' formatted, ''
                                                        @ natToString h (length unformattedValues) @ '' unformatted)'',
                                          issueCount = Some (length formattedValues + length unformattedValues),
                                          issueConfidence = None\<rparr>]
                            else acc)))
      else Returns acc)"

definition generateIssuesRun ::
  "host \<Rightarrow> dataset \<Rightarrow> missingReport \<Rightarrow> duplicateReport \<Rightarrow> typeinfo obj \<Rightarrow> columnStat obj
     \<Rightarrow> issue list completion" where
  "generateIssuesRun h d mv dr dts cs =
     (let i1 = foldl (missingIssueStep h) [] (obj_entries (byColumn mv));
          i2 = (if dupCount dr > 0 then i1 @ [duplicateIssue h dr] else i1);
          i3 = foldl (typeIssueStep h) i2 (obj_entries dts)
      in andThen (foldlRun (formatIssueStepRun h d) i3 (obj_entries cs)) (\<lambda>i4.
           Returns (foldl (outlierIssueStep h) i4 (obj_entries cs))))"

subsection \<open>The analysis\<close>

definition analyzeDataQualityRun :: "host \<Rightarrow> dataset \<Rightarrow> qualityAnalysis completion" where
  "analyzeDataQualityRun h d =
     andThen (findMissingValuesRun d) (\<lambda>mv.
     let dr = findDuplicates h d in
     andThen (analyzeDataTypesRun h d) (\<lambda>dts.
     andThen (foldlRun (\<lambda>acc header.
                andThen (columnStatOfRun h d mv dts header) (\<lambda>columnStat.
                  Returns (obj_set header columnStat acc)))
              [] (headers d)) (\<lambda>cs.
     let completenessSc = completenessScore mv;
         uniquenessSc = uniquenessScore dr
     in
     andThen (foldlRun (validityStepRun h d) 0 (obj_entries cs)) (\<lambda>validityIssues.
     let validitySc = Math_max (Fin 0) (jsub (Fin 100) (ofNat validityIssues));
         mixedTypeColumns = length (filter mixedTypes (obj_values dts));
         mixedTypesPenalty = jmul (jdiv (ofNat mixedTypeColumns) (ofNat (length (headers d)))) (Fin 100)
     in
     andThen (foldlRun (formatInconsistencyStepRun h d) 0 (obj_entries cs)) (\<lambda>formatInconsistencyPenalty.
     let consistencySc =
           Math_max (Fin 0)
             (jsub (jsub (Fin 100) mixedTypesPenalty) (ofNat formatInconsistencyPenalty));
         columnsWithMissing = length (filter (\<lambda>m. mvCount m > 0) (obj_values (byColumn mv)));
         missingColumnsPenalty =
           jmul (jdiv (ofNat columnsWithMissing) (ofNat (length (headers d)))) (Fin 20)
     in
     andThen (foldlRun (formatIssuesStepRun h d) 0 (obj_entries cs)) (\<lambda>formatIssuesPenalty.
     let baseScore =
           jadd (jadd (jadd (jmul completenessSc (Fin 0.40)) (jmul uniquenessSc (Fin 0.30)))
                      (jmul validitySc (Fin 0.20)))
                (jmul consistencySc (Fin 0.10));
         overall =
           Math_max (Fin 0) (jsub (jsub baseScore missingColumnsPenalty) (ofNat formatIssuesPenalty))
     in
     andThen (generateIssuesRun h d mv dr dts cs) (\<lambda>iss.
       Returns
         \<lparr>overallScore = overall,
          dimensionScores =
            \<lparr>completeness = completenessSc, uniqueness = uniquenessSc,
             validity = validitySc, consistency = consistencySc\<rparr>,
          missingValues = mv,
          duplicatesReport = dr,
          dataTypes = dts,
          columnStats = cs,
          issues = iss,
          analysisSummary =
            \<lparr>totalRows = length (rows d),
             totalColumns = length (headers d),
             totalCells = length (rows d) * length (headers d),
             missingCells = totalMissing mv,
             duplicateRows = dupCount dr,
             issuesTotal = length iss\<rparr>\<rparr>)))))))"

section \<open>A host for running the model\<close>

text \<open>
  \<open>decimalHost\<close> is one instance of the built-ins, used to run the model on concrete data.
  It prints and parses plain decimal numerals (no exponent form, no hexadecimal, no
  \<^verbatim>\<open>Infinity\<close> literal): a number is printed with the digits of its exact value, at most
  17 of them after the point, and a numeral is parsed to the double nearest to its value. It
  rounds \<^verbatim>\<open>toFixed\<close> half up on the exact value, and accepts as dates the ISO strings with
  a month from 1 to 12 and a day from 1 to 31.
\<close>

fun decNat :: "nat \<Rightarrow> string" where
  "decNat n = (if n < 10 then [''0123456789'' ! n] else decNat (n div 10) @ [''0123456789'' ! (n mod 10)])"

declare decNat.simps [simp del]

fun fracDigits :: "nat \<Rightarrow> real \<Rightarrow> string" where
  "fracDigits 0 x = []"
| "fracDigits (Suc k) x =
     (if x = 0 then []
      else (''0123456789'' ! nat \<lfloor>x * 10\<rfloor>) # fracDigits k (x * 10 - real_of_int \<lfloor>x * 10\<rfloor>))"

definition decString :: "real \<Rightarrow> string" where
  "decString x =
     (let a = \<bar>x\<bar>; ip = nat \<lfloor>a\<rfloor> in
      (if x < 0 then ''-'' else []) @ decNat ip
      @ (if a = real ip then [] else ''.'' @ fracDigits 17 (a - real ip)))"

definition decFixed :: "nat \<Rightarrow> real \<Rightarrow> string" where
  "decFixed d x =
     (let n = nat \<lfloor>\<bar>x\<bar> * 10 ^ d + 1 / 2\<rfloor>;
          s = decNat n;
          padded = replicate (d + 1 - length s) (CHR ''0'') @ s;
          k = length padded - d
      in (if x < 0 then ''-'' else []) @ take k padded
         @ (if d = 0 then [] else ''.'' @ drop k padded))"

text \<open>
  The longest prefix that is an optionally signed decimal numeral, with its value and the
  rest of the string.
\<close>

definition parsePrefix :: "string \<Rightarrow> (real \<times> string) option" where
  "parsePrefix s =
     (let neg = (s \<noteq> [] \<and> hd s = CHR ''-'');
          s1 = (if s \<noteq> [] \<and> (hd s = CHR ''-'' \<or> hd s = CHR ''+'') then tl s else s);
          ip = takeWhile isDigit s1;
          r1 = dropWhile isDigit s1;
          dot = (r1 \<noteq> [] \<and> hd r1 = CHR ''.'');
          fp = (if dot then takeWhile isDigit (tl r1) else []);
          r2 = (if dot then dropWhile isDigit (tl r1) else r1);
          v = real (decValue ip) + real (decValue fp) / 10 ^ length fp
      in if ip = [] \<and> fp = [] then None
         else Some (if neg then - v else v, r2))"

definition decParseFloat :: "string \<Rightarrow> jsnum" where
  "decParseFloat s =
     (case parsePrefix (dropWhile isSpace s) of None \<Rightarrow> NaN | Some p \<Rightarrow> roundDouble (fst p))"

definition decToNumber :: "string \<Rightarrow> jsnum" where
  "decToNumber s =
     (if trim s = [] then Fin 0
      else case parsePrefix (trim s) of
             None \<Rightarrow> NaN
           | Some p \<Rightarrow> if snd p = [] then roundDouble (fst p) else NaN)"

definition isoDateValid :: "string \<Rightarrow> bool" where
  "isoDateValid s =
     (matchPattern ''dddd-dd-dd'' s
      \<and> 1 \<le> decValue (take 2 (drop 5 s)) \<and> decValue (take 2 (drop 5 s)) \<le> 12
      \<and> 1 \<le> decValue (drop 8 s) \<and> decValue (drop 8 s) \<le> 31)"

definition decimalHost :: host where
  "decimalHost =
     \<lparr>numToString = decString, toNumber = decToNumber, parseFloat = decParseFloat,
      dateValid = isoDateValid, toFixed = decFixed\<rparr>"

section \<open>Notions used in the statements\<close>

text \<open>The test of detectOutliers on one value, against the two bounds.\<close>

definition flagged :: "host \<Rightarrow> jsnum \<Rightarrow> jsnum \<Rightarrow> cell \<Rightarrow> bool" where
  "flagged h lo hi v = (\<not> isNaN (toNumeric h v) \<and> (jlt (toNumeric h v) lo \<or> jgt (toNumeric h v) hi))"

text \<open>
  The classification that the loop of detectDataType applies to one value (boolean first,
  then number, then date, otherwise string), the number of values of a list that fall in a
  class, and the order in which detectDataType lists the four classes.
\<close>

definition classify :: "host \<Rightarrow> cell \<Rightarrow> dtype" where
  "classify h v =
     (if isBooleanValue v then TBoolean
      else if isNumberValue h v then TNumber
      else if isValidDate h v then TDate
      else TString)"

definition typeCount :: "host \<Rightarrow> dtype \<Rightarrow> cell list \<Rightarrow> nat" where
  "typeCount h T vs = length (filter (\<lambda>v. classify h v = T) vs)"

definition typeOrder :: "dtype list" where
  "typeOrder = [TNumber, TString, TBoolean, TDate]"

text \<open>
  Two rows are value-identical when they hold the same value under every header. The class
  that the duplicate list assigns to a row is the original row of the entry that reports the
  row as a duplicate, and the row itself when no entry does. \<open>firstIndex\<close> is the position of
  the first occurrence of a value in a list.
\<close>

definition valueIdentical :: "string list \<Rightarrow> row \<Rightarrow> row \<Rightarrow> bool" where
  "valueIdentical hs r1 r2 = (\<forall>header \<in> set hs. getCell r1 header = getCell r2 header)"

definition classOf :: "dupEntry list \<Rightarrow> nat \<Rightarrow> nat" where
  "classOf dups i = (case find (\<lambda>e. duplicateRow e = i) dups of None \<Rightarrow> i | Some e \<Rightarrow> originalRow e)"

fun firstIndex :: "'a list \<Rightarrow> 'a \<Rightarrow> nat option" where
  "firstIndex [] x = None"
| "firstIndex (y # ys) x = (if x = y then Some 0 else map_option Suc (firstIndex ys x))"

text \<open>
  What the order of the issue list is stated on: the type, the column and the severity of an
  issue.
\<close>

definition issueKey :: "issue \<Rightarrow> issueType \<times> string option \<times> severityLevel" where
  "issueKey i = (issueType i, column i, severity i)"

text \<open>
  A column has mixed number formatting when, among its values that pass the test
  \<^verbatim>\<open>filter(v => v)\<close>, some contain one of the symbols \<open>$ , ( )\<close> and some contain none.
\<close>

definition mixedFormatting :: "host \<Rightarrow> dataset \<Rightarrow> string \<Rightarrow> bool" where
  "mixedFormatting h d c =
     ((\<exists>v \<in> set (filter truthy (columnValues d c)). isFormatted4 h v)
      \<and> (\<exists>v \<in> set (filter truthy (columnValues d c)). \<not> isFormatted4 h v))"

text \<open>A score in the range from 0 to 100, and a number that is neither NaN nor infinite.\<close>

definition inScoreRange :: "jsnum \<Rightarrow> bool" where
  "inScoreRange x = (case x of Fin r \<Rightarrow> 0 \<le> r \<and> r \<le> 100 | _ \<Rightarrow> False)"

definition isFiniteNumber :: "jsnum \<Rightarrow> bool" where
  "isFiniteNumber x = (case x of Fin r \<Rightarrow> True | _ \<Rightarrow> False)"

section \<open>Example data\<close>

text \<open>The dataset of the end-to-end example, and a dataset with a header and no row.\<close>

definition endToEndDataset :: dataset where
  "endToEndDataset =
     \<lparr>headers = [''id'', ''age''],
      rows = [[(''id'', Num (Fin 1)), (''age'', Num (Fin 30))],
              [(''id'', Num (Fin 2)), (''age'', Null)],
              [(''id'', Num (Fin 1)), (''age'', Num (Fin 30))]]\<rparr>"

definition headerOnlyDataset :: dataset where
  "headerOnlyDataset = \<lparr>headers = [''a''], rows = []\<rparr>"

text \<open>
  Columns: the skewed numeric column, a column whose first and last value lie on the outlier
  bounds, a column of large integers on which the rounding of the bounds shows, the skewed
  column after a null as the only column of a dataset, an unsorted column, a column with
  strings of white space and a column of mixed types.
\<close>

definition skewedColumn :: "cell list" where
  "skewedColumn = [Num (Fin 1), Num (Fin 1), Num (Fin 1), Num (Fin 1), Num (Fin 100)]"

definition boundaryColumn :: "cell list" where
  "boundaryColumn = [Num (Fin (- 2)), Num (Fin 1), Num (Fin 1), Num (Fin 2), Num (Fin 3), Num (Fin 6)]"

definition roundingColumn :: "cell list" where
  "roundingColumn =
     [Num (Fin 1), Num (Fin 9007199254740994), Num (Fin 9007199254740994), Num (Fin 15011998757901656)]"

text \<open>The doubles nearest to 0.1, 0.4, 0.4 and 0.6.\<close>

definition decimalColumn :: "cell list" where
  "decimalColumn =
     [Num (Fin (3602879701896397 / 2 ^ 55)), Num (Fin (3602879701896397 / 2 ^ 53)),
      Num (Fin (3602879701896397 / 2 ^ 53)), Num (Fin (5404319552844595 / 2 ^ 53))]"

definition ageColumnDataset :: dataset where
  "ageColumnDataset =
     \<lparr>headers = [''age''],
      rows = [[(''age'', Null)], [(''age'', Num (Fin 1))], [(''age'', Num (Fin 1))],
              [(''age'', Num (Fin 1))], [(''age'', Num (Fin 1))], [(''age'', Num (Fin 100))]]\<rparr>"

definition unsortedColumn :: "cell list" where
  "unsortedColumn = [Num (Fin 4), Null, Num (Fin 1), Num (Fin 3), Num (Fin 2)]"

definition whitespaceColumn :: "cell list" where
  "whitespaceColumn = [Text '' '', Text '' '', Num (Fin 5)]"

definition mixedColumn :: "cell list" where
  "mixedColumn = [Num (Fin 1), Text ''abc'', Bool True, Null, Text ''12'', Text ''yes'']"

text \<open>Rows for the fingerprint examples: equal multisets of values under swapped columns.\<close>

definition swappedDataset :: dataset where
  "swappedDataset =
     \<lparr>headers = [''a'', ''b''],
      rows = [[(''a'', Num (Fin 1)), (''b'', Num (Fin 2))],
              [(''a'', Num (Fin 2)), (''b'', Num (Fin 1))]]\<rparr>"

definition sameStringDataset :: dataset where
  "sameStringDataset =
     \<lparr>headers = [''a'', ''b''],
      rows = [[(''a'', Num (Fin 1)), (''b'', Text ''1'')],
              [(''a'', Text ''1''), (''b'', Num (Fin 1))]]\<rparr>"

text \<open>
  A dataset with a column of null and the empty string, a header that no row has as a key,
  a key that is no header, and a numeric column whose only value is NaN.
\<close>

definition degenerateDataset :: dataset where
  "degenerateDataset =
     \<lparr>headers = [''a'', ''b'', ''c'', ''n''],
      rows = [[(''a'', Null), (''b'', Text ''x''), (''n'', Num NaN)],
              [(''a'', Text []), (''b'', Num (Fin 1)), (''z'', Bool True)]]\<rparr>"

text \<open>A dataset whose second header is an array index.\<close>

definition numericHeaderDataset :: dataset where
  "numericHeaderDataset = \<lparr>headers = [''b'', ''1''], rows = [[(''b'', Null), (''1'', Null)]]\<rparr>"

section \<open>Numbers and sorting\<close>

lemma jlt_numKey: "jlt a b \<Longrightarrow> numKey a < numKey b"
  by (cases a; cases b) (auto simp: less_prod_def)

lemma jlt_irrefl [simp]: "\<not> jlt a a"
  by (cases a) auto

lemma numericSort_mset [simp]: "mset (numericSort xs) = mset xs"
  by (simp add: numericSort_def)

lemma numericSort_length [simp]: "length (numericSort xs) = length xs"
  by (simp add: numericSort_def)

lemma numericSort_ascending:
  assumes "i < j" "j < length xs"
  shows "\<not> jlt (numericSort xs ! j) (numericSort xs ! i)"
proof
  assume lt: "jlt (numericSort xs ! j) (numericSort xs ! i)"
  have "sorted (map numKey (numericSort xs))"
    by (simp add: numericSort_def)
  then have "map numKey (numericSort xs) ! i \<le> map numKey (numericSort xs) ! j"
    using assms by (intro sorted_nth_mono) auto
  then have "numKey (numericSort xs ! i) \<le> numKey (numericSort xs ! j)"
    using assms by simp
  with jlt_numKey [OF lt] show False by simp
qed

lemma numericSort_ascending_four:
  assumes "a \<le> b" "b \<le> c" "c \<le> d"
  shows "numericSort [Fin a, Fin b, Fin c, Fin d] = [Fin a, Fin b, Fin c, Fin d]"
proof -
  have "sorted (map numKey [Fin a, Fin b, Fin c, Fin d])"
    using assms by (simp add: less_eq_prod_def)
  then show ?thesis
    unfolding numericSort_def by (rule sort_key_id_if_sorted)
qed

section \<open>Rounding\<close>

text \<open>
  Rounding is monotone, it maps a number that is a double to itself, and it maps zero to
  zero. On the tie \<open>2^53 + 1\<close> it chooses the even significand, and the nearest double to
  one tenth is \<open>3602879701896397 / 2^55\<close>. From the monotonicity, the lower bound that
  detectOutliers computes from two ordered quartiles is not above the upper bound.
\<close>

lemma roundHalfEven_mono: "y \<le> z \<Longrightarrow> roundHalfEven y \<le> roundHalfEven z"
proof -
  assume le: "y \<le> z"
  have fl: "\<lfloor>y\<rfloor> \<le> \<lfloor>z\<rfloor>" using le by (rule floor_mono)
  have lo: "\<lfloor>t\<rfloor> \<le> roundHalfEven t" "roundHalfEven t \<le> \<lfloor>t\<rfloor> + 1" for t
    by (simp_all add: roundHalfEven_def)
  show ?thesis
  proof (cases "\<lfloor>y\<rfloor> = \<lfloor>z\<rfloor>")
    case True
    then show ?thesis using le by (auto simp: roundHalfEven_def)
  next
    case False
    then have "\<lfloor>y\<rfloor> + 1 \<le> \<lfloor>z\<rfloor>" using fl by simp
    then show ?thesis using lo(2) [of y] lo(1) [of z] by linarith
  qed
qed

lemma roundHalfEven_of_int [simp]: "roundHalfEven (of_int n) = n"
  by (simp add: roundHalfEven_def)

lemma roundHalfEven_minus: "roundHalfEven (- y) = - roundHalfEven y"
proof (cases "y = of_int \<lfloor>y\<rfloor>")
  case True
  then obtain n where "y = of_int n" by metis
  then show ?thesis by (simp add: roundHalfEven_def)
next
  case False
  then have ne: "of_int \<lfloor>y\<rfloor> < y"
    using of_int_floor_le [of y] by linarith
  have f: "\<lfloor>- y\<rfloor> = - \<lfloor>y\<rfloor> - 1"
  proof (rule floor_unique)
    have "y < of_int \<lfloor>y\<rfloor> + 1" by linarith
    then show "of_int (- \<lfloor>y\<rfloor> - 1) \<le> - y" by simp linarith
    show "- y < of_int (- \<lfloor>y\<rfloor> - 1) + 1" using ne by simp
  qed
  show ?thesis
    unfolding roundHalfEven_def f by (auto simp: field_simps)
qed

lemma ulp_pos [simp]: "0 < ulp x"
  by (simp add: ulp_def)

lemma ulp_nonneg [simp]: "0 \<le> ulp x"
  by (simp add: ulp_def)

lemma ulp_nonzero [simp]: "ulp x \<noteq> 0"
  by (simp add: ulp_def)

lemma ulp_times:
  "ulp x * 2 powr real_of_int k = 2 powr real_of_int (binaryExponent x - 52 + k)"
  unfolding ulp_def by (simp only: powr_add [symmetric] of_int_add)

lemma binaryExponent_minus [simp]: "binaryExponent (- x) = binaryExponent x"
  by (simp add: binaryExponent_def)

lemma ulp_minus [simp]: "ulp (- x) = ulp x"
  by (simp add: ulp_def)

lemma nearestMultiple_minus: "nearestMultiple (- x) = - nearestMultiple x"
  by (simp add: nearestMultiple_def roundHalfEven_minus)

lemma binaryExponent_upper:
  assumes "x \<noteq> 0"
  shows "\<bar>x\<bar> < 2 powr real_of_int (binaryExponent x + 1)"
proof -
  have "log 2 \<bar>x\<bar> < real_of_int (\<lfloor>log 2 \<bar>x\<bar>\<rfloor> + 1)" by linarith
  also have "\<dots> \<le> real_of_int (binaryExponent x + 1)"
    by (simp add: binaryExponent_def)
  finally have "log 2 \<bar>x\<bar> < real_of_int (binaryExponent x + 1)" .
  then show ?thesis using assms by (simp add: log_less_iff)
qed

lemma binaryExponent_lower:
  assumes "x \<noteq> 0" "- 1022 < binaryExponent x"
  shows "2 powr real_of_int (binaryExponent x) \<le> \<bar>x\<bar>"
proof -
  have "binaryExponent x = \<lfloor>log 2 \<bar>x\<bar>\<rfloor>"
    using assms(2) by (simp add: binaryExponent_def max_def split: if_splits)
  then have "real_of_int (binaryExponent x) \<le> log 2 \<bar>x\<bar>" by simp
  then show ?thesis using assms(1) by (simp add: le_log_iff)
qed

lemma binaryExponent_mono:
  assumes "x \<noteq> 0" "\<bar>x\<bar> \<le> \<bar>y\<bar>"
  shows "binaryExponent x \<le> binaryExponent y"
proof -
  have "log 2 \<bar>x\<bar> \<le> log 2 \<bar>y\<bar>" using assms by simp
  then have "\<lfloor>log 2 \<bar>x\<bar>\<rfloor> \<le> \<lfloor>log 2 \<bar>y\<bar>\<rfloor>" by (rule floor_mono)
  then show ?thesis by (simp add: binaryExponent_def)
qed

lemma nearestMultiple_upper:
  assumes "0 < x"
  shows "nearestMultiple x \<le> 2 powr real_of_int (binaryExponent x + 1)"
proof -
  let ?e = "binaryExponent x"
  have u: "ulp x * 2 powr 53 = 2 powr real_of_int (?e + 1)"
    using ulp_times [of x 53] by (simp add: add.commute)
  have "x < ulp x * 2 powr 53"
    using binaryExponent_upper [of x] assms unfolding u by simp
  then have "x / ulp x \<le> 2 powr 53"
    by (simp add: field_simps)
  also have "(2::real) powr 53 = real_of_int (2 ^ 53)" by simp
  finally have "roundHalfEven (x / ulp x) \<le> roundHalfEven (real_of_int (2 ^ 53))"
    by (rule roundHalfEven_mono)
  then have "roundHalfEven (x / ulp x) \<le> 2 ^ 53" by (simp only: roundHalfEven_of_int)
  then have "real_of_int (roundHalfEven (x / ulp x)) \<le> real_of_int (2 ^ 53)"
    by (simp only: of_int_le_iff)
  then have "real_of_int (roundHalfEven (x / ulp x)) * ulp x \<le> real_of_int (2 ^ 53) * ulp x"
    by (intro mult_right_mono) simp_all
  also have "real_of_int (2 ^ 53) * ulp x = 2 powr real_of_int (?e + 1)"
    using u by simp
  finally show ?thesis using assms by (simp add: nearestMultiple_def)
qed

lemma nearestMultiple_lower:
  assumes "0 < x" "- 1022 < binaryExponent x"
  shows "2 powr real_of_int (binaryExponent x) \<le> nearestMultiple x"
proof -
  let ?e = "binaryExponent x"
  have u: "ulp x * 2 powr 52 = 2 powr real_of_int ?e"
    using ulp_times [of x 52] by simp
  have "ulp x * 2 powr 52 \<le> x"
    using binaryExponent_lower [of x] assms unfolding u by simp
  then have "2 powr 52 \<le> x / ulp x"
    by (simp add: field_simps)
  moreover have "(2::real) powr 52 = real_of_int (2 ^ 52)" by simp
  ultimately have "roundHalfEven (real_of_int (2 ^ 52)) \<le> roundHalfEven (x / ulp x)"
    by (intro roundHalfEven_mono) simp
  then have "2 ^ 52 \<le> roundHalfEven (x / ulp x)" by (simp only: roundHalfEven_of_int)
  then have "real_of_int (2 ^ 52) \<le> real_of_int (roundHalfEven (x / ulp x))"
    by (simp only: of_int_le_iff)
  then have "real_of_int (2 ^ 52) * ulp x \<le> real_of_int (roundHalfEven (x / ulp x)) * ulp x"
    by (intro mult_right_mono) simp_all
  moreover have "real_of_int (2 ^ 52) * ulp x = 2 powr real_of_int ?e"
    using u by simp
  ultimately have "2 powr real_of_int ?e \<le> real_of_int (roundHalfEven (x / ulp x)) * ulp x"
    by (simp only:)
  then show ?thesis using assms by (simp add: nearestMultiple_def)
qed

lemma nearestMultiple_nonneg: "0 \<le> x \<Longrightarrow> 0 \<le> nearestMultiple x"
proof -
  assume "0 \<le> x"
  then have "0 \<le> x / ulp x" by simp
  then have "roundHalfEven (real_of_int 0) \<le> roundHalfEven (x / ulp x)"
    by (intro roundHalfEven_mono) simp
  then have "0 \<le> roundHalfEven (x / ulp x)" by (simp only: roundHalfEven_of_int)
  then show ?thesis by (simp add: nearestMultiple_def)
qed

lemma nearestMultiple_mono_pos:
  assumes "0 < x" "x \<le> y"
  shows "nearestMultiple x \<le> nearestMultiple y"
proof -
  have le: "binaryExponent x \<le> binaryExponent y"
    using assms by (intro binaryExponent_mono) simp_all
  show ?thesis
  proof (cases "binaryExponent x = binaryExponent y")
    case True
    then have u: "ulp y = ulp x" by (simp add: ulp_def)
    have "x / ulp x \<le> y / ulp x" using assms by (simp add: divide_right_mono)
    then have "roundHalfEven (x / ulp x) \<le> roundHalfEven (y / ulp x)"
      by (rule roundHalfEven_mono)
    then have "real_of_int (roundHalfEven (x / ulp x)) * ulp x \<le> real_of_int (roundHalfEven (y / ulp x)) * ulp x"
      by (intro mult_right_mono) simp_all
    then show ?thesis using assms by (simp add: nearestMultiple_def u)
  next
    case False
    then have lt: "binaryExponent x + 1 \<le> binaryExponent y" using le by simp
    have e: "- 1022 < binaryExponent y"
      using lt by (simp add: binaryExponent_def [of x])
    have "nearestMultiple x \<le> 2 powr real_of_int (binaryExponent x + 1)"
      using assms by (intro nearestMultiple_upper) simp
    also have "\<dots> \<le> 2 powr real_of_int (binaryExponent y)"
      using lt by (simp only: powr_le_cancel_iff of_int_le_iff)
    also have "\<dots> \<le> nearestMultiple y"
      using assms e by (intro nearestMultiple_lower) simp_all
    finally show ?thesis .
  qed
qed

lemma nearestMultiple_mono:
  assumes "x \<le> y"
  shows "nearestMultiple x \<le> nearestMultiple y"
proof -
  consider "0 < x" | "x \<le> 0" "0 \<le> y" | "y < 0" by linarith
  then show ?thesis
  proof cases
    case 1
    then show ?thesis using assms by (rule nearestMultiple_mono_pos)
  next
    case 2
    have "nearestMultiple x = - nearestMultiple (- x)"
      using nearestMultiple_minus [of "- x"] by simp
    moreover have "0 \<le> nearestMultiple (- x)"
      using 2 by (intro nearestMultiple_nonneg) simp
    moreover have "0 \<le> nearestMultiple y"
      using 2 by (intro nearestMultiple_nonneg)
    ultimately show ?thesis by simp
  next
    case 3
    have "nearestMultiple (- y) \<le> nearestMultiple (- x)"
      using 3 assms by (intro nearestMultiple_mono_pos) simp_all
    then show ?thesis by (simp add: nearestMultiple_minus)
  qed
qed

lemma binaryExponent_eq:
  assumes "2 powr real_of_int e \<le> \<bar>x\<bar>" "\<bar>x\<bar> < 2 powr real_of_int (e + 1)" "- 1022 \<le> e"
  shows "binaryExponent x = e"
proof -
  have pos: "0 < \<bar>x\<bar>"
    using assms(1) by (smt (verit) powr_gt_zero)
  have "\<lfloor>log 2 \<bar>x\<bar>\<rfloor> = e"
  proof (rule floor_unique)
    show "real_of_int e \<le> log 2 \<bar>x\<bar>"
      using assms(1) pos by (simp add: le_log_iff)
    have "log 2 \<bar>x\<bar> < real_of_int (e + 1)"
      using assms(2) pos by (simp add: log_less_iff)
    then show "log 2 \<bar>x\<bar> < real_of_int e + 1" by simp
  qed
  then show ?thesis using assms(3) by (simp add: binaryExponent_def)
qed

lemma nearestMultiple_exact:
  assumes "2 powr real_of_int e \<le> \<bar>x\<bar>" "\<bar>x\<bar> < 2 powr real_of_int (e + 1)" "- 1022 \<le> e"
    and "x = real_of_int m * 2 powr real_of_int (e - 52)"
  shows "nearestMultiple x = x"
proof -
  have e: "binaryExponent x = e" using assms(1,2,3) by (rule binaryExponent_eq)
  have u: "ulp x = 2 powr real_of_int (e - 52)" by (simp add: ulp_def e)
  have "x / ulp x = real_of_int m"
    unfolding u using assms(4) by simp
  then have "roundHalfEven (x / ulp x) = m" by simp
  then show ?thesis using assms(4) u by (simp add: nearestMultiple_def)
qed

lemma roundDouble_exact:
  assumes "2 powr real_of_int e \<le> \<bar>x\<bar>" "\<bar>x\<bar> < 2 powr real_of_int (e + 1)" "- 1022 \<le> e" "e \<le> 1023"
    and "x = real_of_int m * 2 powr real_of_int (e - 52)"
  shows "roundDouble x = Fin x"
proof -
  have n: "nearestMultiple x = x" using assms(1,2,3,5) by (rule nearestMultiple_exact)
  have "(2::real) powr real_of_int (e + 1) \<le> 2 powr real_of_int 1024"
    using assms(4) by (simp only: powr_le_cancel_iff of_int_le_iff)
  also have "\<dots> = 2 ^ 1024" by (simp del: power_numeral)
  finally have "\<bar>x\<bar> < 2 ^ 1024" using assms(2) by linarith
  then show ?thesis unfolding roundDouble_def n by (auto simp del: power_numeral)
qed

lemma roundDouble_zero [simp]: "roundDouble 0 = Fin 0"
  by (simp add: roundDouble_def nearestMultiple_def del: power_numeral)

lemma roundDouble_small_int:
  assumes "2 ^ k \<le> \<bar>n\<bar>" "\<bar>n\<bar> < 2 ^ (k + 1)" "k \<le> 52"
  shows "roundDouble (real_of_int n) = Fin (real_of_int n)"
proof (rule roundDouble_exact [where e = "int k" and m = "n * 2 ^ (52 - k)"])
  have "(2::real) powr real_of_int (int k) = real_of_int (2 ^ k)"
    by (simp add: powr_realpow)
  then show "2 powr real_of_int (int k) \<le> \<bar>real_of_int n\<bar>"
    using assms(1) by (metis of_int_abs of_int_le_iff)
  have "(2::real) powr real_of_int (int k + 1) = real_of_int (2 ^ (k + 1))"
    by (simp add: powr_realpow powr_add)
  then show "\<bar>real_of_int n\<bar> < 2 powr real_of_int (int k + 1)"
    using assms(2) by (metis of_int_abs of_int_less_iff)
  show "- 1022 \<le> int k" by simp
  show "int k \<le> 1023" using assms(3) by simp
  have "(2::real) ^ (52 - k) * 2 powr real_of_int (int k - 52) = 2 powr real (52 - k) * 2 powr real_of_int (int k - 52)"
    by (simp add: powr_realpow)
  also have "\<dots> = 2 powr (real (52 - k) + real_of_int (int k - 52))"
    by (simp only: powr_add)
  also have "real (52 - k) + real_of_int (int k - 52) = 0"
    using assms(3) by simp
  finally have "(2::real) ^ (52 - k) * 2 powr real_of_int (int k - 52) = 1" by simp
  then show "real_of_int n = real_of_int (n * 2 ^ (52 - k)) * 2 powr real_of_int (int k - 52)"
    by (simp add: mult.assoc)
qed

lemma roundDouble_scaled_up:
  assumes "2 ^ 52 \<le> \<bar>m\<bar>" "\<bar>m\<bar> < 2 ^ 53" "j \<le> 971"
  shows "roundDouble (real_of_int m * 2 ^ j) = Fin (real_of_int m * 2 ^ j)"
proof (rule roundDouble_exact [where e = "52 + int j" and m = m])
  have p: "(2::real) powr real_of_int (int k) = 2 ^ k" for k
    by (simp add: powr_realpow)
  have a: "\<bar>real_of_int m * 2 ^ j\<bar> = real_of_int \<bar>m\<bar> * 2 ^ j"
    by (simp add: abs_mult)
  have l: "real_of_int (2 ^ 52) \<le> real_of_int \<bar>m\<bar>" "real_of_int \<bar>m\<bar> < real_of_int (2 ^ 53)"
    using assms(1,2) by (simp_all only: of_int_le_iff of_int_less_iff)
  have "2 powr real_of_int (52 + int j) = (2::real) ^ (52 + j)"
    using p [of "52 + j"] by simp
  also have "\<dots> = real_of_int (2 ^ 52) * 2 ^ j" by (simp add: power_add)
  also have "\<dots> \<le> real_of_int \<bar>m\<bar> * 2 ^ j"
    using l(1) by (intro mult_right_mono) simp_all
  finally show "2 powr real_of_int (52 + int j) \<le> \<bar>real_of_int m * 2 ^ j\<bar>"
    unfolding a .
  have "real_of_int \<bar>m\<bar> * 2 ^ j < real_of_int (2 ^ 53) * 2 ^ j"
    using l(2) by (intro mult_strict_right_mono) simp_all
  also have "\<dots> = (2::real) ^ (53 + j)" by (simp add: power_add)
  also have "\<dots> = 2 powr real_of_int (52 + int j + 1)"
    using p [of "53 + j"] by (simp add: add.commute)
  finally show "\<bar>real_of_int m * 2 ^ j\<bar> < 2 powr real_of_int (52 + int j + 1)"
    unfolding a .
  show "- 1022 \<le> 52 + int j" by simp
  show "52 + int j \<le> 1023" using assms(3) by simp
  show "real_of_int m * 2 ^ j = real_of_int m * 2 powr real_of_int (52 + int j - 52)"
    using p [of j] by simp
qed

lemma roundDouble_scaled_down:
  assumes "2 ^ 52 \<le> \<bar>m\<bar>" "\<bar>m\<bar> < 2 ^ 53" "j \<le> 1074"
  shows "roundDouble (real_of_int m / 2 ^ j) = Fin (real_of_int m / 2 ^ j)"
proof (rule roundDouble_exact [where e = "52 - int j" and m = m])
  have p: "(2::real) powr real_of_int (- int k) = 1 / 2 ^ k" for k
    by (simp add: powr_minus powr_realpow divide_simps)
  have q: "(2::real) powr real_of_int (n - int k) = 2 ^ nat n / 2 ^ k" if "0 \<le> n" for n k
  proof -
    have "(2::real) powr real_of_int (n - int k) = 2 powr (real (nat n) + real_of_int (- int k))"
      using that by simp
    also have "\<dots> = 2 powr real (nat n) * 2 powr real_of_int (- int k)"
      by (rule powr_add)
    also have "\<dots> = 2 ^ nat n / 2 ^ k"
      unfolding p by (simp add: powr_realpow)
    finally show ?thesis .
  qed
  have a: "\<bar>real_of_int m / 2 ^ j\<bar> = real_of_int \<bar>m\<bar> / 2 ^ j"
    by simp
  have l: "real_of_int (2 ^ 52) \<le> real_of_int \<bar>m\<bar>" "real_of_int \<bar>m\<bar> < real_of_int (2 ^ 53)"
    using assms(1,2) by (simp_all only: of_int_le_iff of_int_less_iff)
  have "2 powr real_of_int (52 - int j) = real_of_int (2 ^ 52) / 2 ^ j"
    using q [of 52 j] by simp
  also have "\<dots> \<le> real_of_int \<bar>m\<bar> / 2 ^ j"
    using l(1) by (intro divide_right_mono) simp_all
  finally show "2 powr real_of_int (52 - int j) \<le> \<bar>real_of_int m / 2 ^ j\<bar>"
    unfolding a .
  have "real_of_int \<bar>m\<bar> / 2 ^ j < real_of_int (2 ^ 53) / 2 ^ j"
    using l(2) by (intro divide_strict_right_mono) simp_all
  also have "\<dots> = 2 powr real_of_int (53 - int j)"
    using q [of 53 j] by simp
  also have "53 - int j = 52 - int j + 1" by simp
  finally show "\<bar>real_of_int m / 2 ^ j\<bar> < 2 powr real_of_int (52 - int j + 1)"
    unfolding a .
  show "- 1022 \<le> 52 - int j" using assms(3) by simp
  show "52 - int j \<le> 1023" by simp
  show "real_of_int m / 2 ^ j = real_of_int m * 2 powr real_of_int (52 - int j - 52)"
    using p [of j] by simp
qed

lemma roundDouble_halves:
  "roundDouble (3 / 2) = Fin (3 / 2)" "roundDouble (- (1 / 2)) = Fin (- (1 / 2))"
  "roundDouble (7 / 2) = Fin (7 / 2)"
  using roundDouble_scaled_down [of "3 * 2 ^ 51" 52] roundDouble_scaled_down [of "- (2 ^ 52)" 53]
    roundDouble_scaled_down [of "7 * 2 ^ 50" 51]
  by simp_all

lemma roundDouble_large:
  "roundDouble 6004799503160662 = Fin 6004799503160662"
  "roundDouble 24019198012642648 = Fin 24019198012642648"
  using roundDouble_scaled_up [of 6004799503160662 0] roundDouble_scaled_up [of 6004799503160662 2]
  by simp_all

lemma roundDouble_integers:
  "roundDouble 1 = Fin 1" "roundDouble 2 = Fin 2" "roundDouble 3 = Fin 3"
  "roundDouble (- 2) = Fin (- 2)" "roundDouble 6 = Fin 6" "roundDouble 30 = Fin 30"
  using roundDouble_small_int [of 0 1] roundDouble_small_int [of 1 2] roundDouble_small_int [of 1 3]
    roundDouble_small_int [of 1 "- 2"] roundDouble_small_int [of 2 6] roundDouble_small_int [of 4 30]
  by simp_all

lemma roundDouble_tenth: "roundDouble (1 / 10) = Fin (3602879701896397 / 2 ^ 55)"
proof -
  have e: "binaryExponent (1 / 10) = - 4"
    by (rule binaryExponent_eq) (simp_all add: powr_neg_numeral)
  have u: "ulp (1 / 10) = 1 / 2 ^ 56"
    by (simp add: ulp_def e powr_neg_numeral)
  have f: "\<lfloor>(1 / 10) / (1 / 2 ^ 56) :: real\<rfloor> = 7205759403792793"
    by (rule floor_unique) simp_all
  have "roundHalfEven ((1 / 10) / (1 / 2 ^ 56)) = 7205759403792794"
    unfolding roundHalfEven_def f by simp
  then have "nearestMultiple (1 / 10) = 7205759403792794 / 2 ^ 56"
    by (simp add: nearestMultiple_def u)
  then show ?thesis
    unfolding roundDouble_def by simp
qed


lemma roundDouble_not_NaN [simp]: "roundDouble x \<noteq> NaN"
  by (simp add: roundDouble_def del: power_numeral)

lemma roundDouble_mono: "x \<le> y \<Longrightarrow> \<not> jlt (roundDouble y) (roundDouble x)"
  using nearestMultiple_mono [of x y] by (auto simp: roundDouble_def simp del: power_numeral)

lemma roundDouble_nonneg:
  "0 \<le> x \<Longrightarrow> roundDouble x = PInf \<or> (\<exists>r. roundDouble x = Fin r \<and> 0 \<le> r)"
  using nearestMultiple_nonneg [of x] by (auto simp: roundDouble_def simp del: power_numeral)

lemma rounded_bounds_finite:
  assumes "x \<le> y"
  shows "\<not> jlt (fadd (Fin y) (fmul (Fin 1.5) (fsub (Fin y) (Fin x))))
              (fsub (Fin x) (fmul (Fin 1.5) (fsub (Fin y) (Fin x))))"
proof -
  have "0 \<le> y - x" using assms by simp
  from roundDouble_nonneg [OF this]
  consider "roundDouble (y - x) = PInf" | i where "roundDouble (y - x) = Fin i" "0 \<le> i"
    by blast
  then show ?thesis
  proof cases
    case 1
    then show ?thesis by (simp add: fadd_def fsub_def fmul_def jsub_def ofSign_def)
  next
    case 2
    have "0 \<le> 1.5 * i" using 2(2) by simp
    from roundDouble_nonneg [OF this]
    consider "roundDouble (1.5 * i) = PInf" | t where "roundDouble (1.5 * i) = Fin t" "0 \<le> t"
      by blast
    then show ?thesis
    proof cases
      case 1
      then show ?thesis using 2 by (simp add: fadd_def fsub_def fmul_def jsub_def)
    next
      case (2 t)
      have "x - t \<le> y + t" using assms 2(2) by simp
      from roundDouble_mono [OF this] show ?thesis
        using 2 \<open>roundDouble (y - x) = Fin i\<close> by (simp add: fadd_def fsub_def fmul_def jsub_def)
    qed
  qed
qed

lemma rounded_bounds_ordered:
  assumes "\<not> jlt c a"
  shows "\<not> jlt (fadd c (fmul (Fin 1.5) (fsub c a))) (fsub a (fmul (Fin 1.5) (fsub c a)))"
proof (cases a; cases c)
  fix x y assume "a = Fin x" "c = Fin y"
  then show ?thesis using assms rounded_bounds_finite [of x y] by simp
qed (use assms in \<open>simp_all add: fadd_def fsub_def fmul_def jsub_def ofSign_def\<close>)

lemma roundDouble_tie: "roundDouble 9007199254740993 = Fin 9007199254740992"
proof -
  have e: "binaryExponent 9007199254740993 = 53"
    by (rule binaryExponent_eq) simp_all
  have u: "ulp 9007199254740993 = 2"
    by (simp add: ulp_def e)
  have f: "\<lfloor>9007199254740993 / 2 :: real\<rfloor> = 4503599627370496"
    by (rule floor_unique) simp_all
  have "roundHalfEven (9007199254740993 / 2) = 4503599627370496"
    unfolding roundHalfEven_def f by simp
  then have "nearestMultiple 9007199254740993 = 9007199254740992"
    by (simp add: nearestMultiple_def u)
  then show ?thesis
    unfolding roundDouble_def by simp
qed

section \<open>Quartiles\<close>

lemma quartileIndex_quarter: "quartileIndex n 0.25 = n div 4"
proof -
  have "real n * 0.25 = real n / real 4" by simp
  then show ?thesis
    unfolding quartileIndex_def by (simp only: floor_divide_of_nat_eq nat_int)
qed

lemma quartileIndex_half: "quartileIndex n 0.5 = n div 2"
proof -
  have "real n * 0.5 = real n / real 2" by simp
  then show ?thesis
    unfolding quartileIndex_def by (simp only: floor_divide_of_nat_eq nat_int)
qed

lemma quartileIndex_three_quarters: "quartileIndex n 0.75 = (3 * n) div 4"
proof -
  have "real n * 0.75 = real (3 * n) / real 4" by simp
  then show ?thesis
    unfolding quartileIndex_def by (simp only: floor_divide_of_nat_eq nat_int)
qed

lemma quartileIndex_bounds:
  "0 < n \<Longrightarrow> quartileIndex n 0.25 < n \<and> quartileIndex n 0.5 < n \<and> quartileIndex n 0.75 < n"
  unfolding quartileIndex_quarter quartileIndex_half quartileIndex_three_quarters by auto

lemma calculateStatistics_Some:
  assumes "numericValues h vals \<noteq> []"
  shows "\<exists>st. calculateStatistics h vals = Some st
     \<and> q1 st = numericSort (numericValues h vals) ! quartileIndex (length (numericValues h vals)) 0.25
     \<and> q2 st = numericSort (numericValues h vals) ! quartileIndex (length (numericValues h vals)) 0.5
     \<and> q3 st = numericSort (numericValues h vals) ! quartileIndex (length (numericValues h vals)) 0.75
     \<and> mean st = jdiv (foldl jadd (Fin 0) (numericValues h vals)) (ofNat (length (numericValues h vals)))"
  using assms by (simp add: calculateStatistics_def Let_def)

lemma calculateStatistics_None:
  "numericValues h vals = [] \<Longrightarrow> calculateStatistics h vals = None"
  by (simp add: calculateStatistics_def)

text \<open>
  Claim C5. When a column has at least one value that coerces to a number, the statistics
  exist; the sorted sequence is an ascending rearrangement of the numeric values; the three
  indices \<open>floor(N * 0.25)\<close>, \<open>floor(N * 0.5)\<close> and \<open>floor(N * 0.75)\<close> are inside it; and
  \<open>q1\<close>, \<open>q2\<close> and \<open>q3\<close> are the elements at these indices, nothing being interpolated.
  For the column 1, 2, 3, 4 they are 2, 3 and 4.
\<close>

theorem quartiles_floor_index:
  "(numericValues h vals \<noteq> [] \<longrightarrow>
      (\<exists>st. calculateStatistics h vals = Some st \<and>
         (let srt = numericSort (numericValues h vals); N = length srt in
            mset srt = mset (numericValues h vals) \<and>
            (\<forall>i j. i < j \<and> j < N \<longrightarrow> \<not> jlt (srt ! j) (srt ! i)) \<and>
            nat \<lfloor>real N * 0.25\<rfloor> < N \<and> nat \<lfloor>real N * 0.5\<rfloor> < N \<and> nat \<lfloor>real N * 0.75\<rfloor> < N \<and>
            q1 st = srt ! nat \<lfloor>real N * 0.25\<rfloor> \<and>
            q2 st = srt ! nat \<lfloor>real N * 0.5\<rfloor> \<and>
            q3 st = srt ! nat \<lfloor>real N * 0.75\<rfloor>)))
   \<and> map_option (\<lambda>st. (q1 st, q2 st, q3 st))
        (calculateStatistics h [Num (Fin 1), Num (Fin 2), Num (Fin 3), Num (Fin 4)])
      = Some (Fin 2, Fin 3, Fin 4)"
proof (intro conjI impI)
  assume ne: "numericValues h vals \<noteq> []"
  obtain st where st: "calculateStatistics h vals = Some st"
    "q1 st = numericSort (numericValues h vals) ! quartileIndex (length (numericValues h vals)) 0.25"
    "q2 st = numericSort (numericValues h vals) ! quartileIndex (length (numericValues h vals)) 0.5"
    "q3 st = numericSort (numericValues h vals) ! quartileIndex (length (numericValues h vals)) 0.75"
    using calculateStatistics_Some [OF ne] by blast
  have pos: "0 < length (numericValues h vals)" using ne by simp
  show "\<exists>st. calculateStatistics h vals = Some st \<and>
         (let srt = numericSort (numericValues h vals); N = length srt in
            mset srt = mset (numericValues h vals) \<and>
            (\<forall>i j. i < j \<and> j < N \<longrightarrow> \<not> jlt (srt ! j) (srt ! i)) \<and>
            nat \<lfloor>real N * 0.25\<rfloor> < N \<and> nat \<lfloor>real N * 0.5\<rfloor> < N \<and> nat \<lfloor>real N * 0.75\<rfloor> < N \<and>
            q1 st = srt ! nat \<lfloor>real N * 0.25\<rfloor> \<and>
            q2 st = srt ! nat \<lfloor>real N * 0.5\<rfloor> \<and>
            q3 st = srt ! nat \<lfloor>real N * 0.75\<rfloor>)"
    using st quartileIndex_bounds [OF pos] numericSort_ascending [of _ _ "numericValues h vals"]
    by (intro exI [of _ st]) (simp add: Let_def quartileIndex_def)
next
  show "map_option (\<lambda>st. (q1 st, q2 st, q3 st))
        (calculateStatistics h [Num (Fin 1), Num (Fin 2), Num (Fin 3), Num (Fin 4)])
      = Some (Fin 2, Fin 3, Fin 4)"
    by (simp add: calculateStatistics_def numericValues_def nonNull_def isNaN_def Let_def
        numericSort_def quartileIndex_def less_eq_prod_def less_prod_def)
qed

lemma unsortedColumn_numeric:
  "numericValues decimalHost unsortedColumn = [Fin 4, Fin 1, Fin 3, Fin 2]"
  by (simp add: unsortedColumn_def numericValues_def nonNull_def isNaN_def)

lemma unsortedColumn_sorted:
  "numericSort [Fin 4, Fin 1, Fin 3, Fin 2] = [Fin 1, Fin 2, Fin 3, Fin 4]"
  by (simp add: numericSort_def less_eq_prod_def less_prod_def)

theorem quartiles_floor_index_witness:
  "numericValues decimalHost unsortedColumn \<noteq> []
   \<and> (\<exists>st. calculateStatistics decimalHost unsortedColumn = Some st
          \<and> q1 st = Fin 2 \<and> q2 st = Fin 3 \<and> q3 st = Fin 4)"
  using quartiles_floor_index [of decimalHost unsortedColumn]
  by (simp add: unsortedColumn_numeric unsortedColumn_sorted Let_def) blast

section \<open>Outliers\<close>

lemma outlierLoop_append:
  "outlierLoop h lo hi vs i acc = acc @ outlierLoop h lo hi vs i []"
proof (induction vs arbitrary: i acc)
  case Nil
  show ?case by simp
next
  case (Cons v vs)
  show ?case
    using Cons.IH [of "Suc i" "acc @ [x]" for x] Cons.IH [of "Suc i" "[x]" for x]
      Cons.IH [of "Suc i" acc]
    by (simp add: Let_def)
qed

lemma outlierLoop_member:
  "e \<in> set (outlierLoop h lo hi vs i []) \<longleftrightarrow>
     (\<exists>k < length vs. flagged h lo hi (vs ! k) \<and>
        e = \<lparr>index = i + k, outValue = toNumeric h (vs ! k),
             outType = (if jlt (toNumeric h (vs ! k)) lo then KLow else KHigh)\<rparr>)"
proof (induction vs arbitrary: i)
  case Nil
  show ?case by simp
next
  case (Cons v vs)
  have split: "(\<exists>k < length (v # vs). P k) \<longleftrightarrow> P 0 \<or> (\<exists>k < length vs. P (Suc k))" for P
    by (auto simp: less_Suc_eq_0_disj)
  show ?case
    apply (subst outlierLoop.simps)
    apply (subst outlierLoop_append)
    apply (subst split)
    apply (simp add: Let_def Cons.IH flagged_def)
    apply auto
    done
qed

lemma quartiles_ordered:
  assumes "calculateStatistics h vals = Some st"
  shows "\<not> jlt (q3 st) (q1 st)"
proof -
  let ?nums = "numericValues h vals"
  have ne: "?nums \<noteq> []"
    using assms by (auto simp: calculateStatistics_def split: if_splits)
  obtain st' where st': "calculateStatistics h vals = Some st'"
    "q1 st' = numericSort ?nums ! quartileIndex (length ?nums) 0.25"
    "q3 st' = numericSort ?nums ! quartileIndex (length ?nums) 0.75"
    using calculateStatistics_Some [OF ne] by blast
  have eq: "st' = st" using st' assms by simp
  have le: "quartileIndex (length ?nums) 0.25 \<le> quartileIndex (length ?nums) 0.75"
    unfolding quartileIndex_quarter quartileIndex_three_quarters by auto
  have lt: "quartileIndex (length ?nums) 0.75 < length ?nums"
    using quartileIndex_bounds [of "length ?nums"] ne by simp
  show ?thesis
  proof (cases "quartileIndex (length ?nums) 0.25 = quartileIndex (length ?nums) 0.75")
    case True
    then show ?thesis using st' eq by simp
  next
    case False
    then have "quartileIndex (length ?nums) 0.25 < quartileIndex (length ?nums) 0.75"
      using le by simp
    from numericSort_ascending [OF this lt] show ?thesis using st' eq by simp
  qed
qed

lemmas bound_simps =
  fadd_def fsub_def fmul_def jsub_def roundDouble_integers roundDouble_halves

lemma detectOutliers_Some:
  assumes "calculateStatistics h vals = Some st"
  shows "detectOutliers h vals =
     \<lparr>outliers = outlierLoop h (fsub (q1 st) (fmul (Fin 1.5) (fsub (q3 st) (q1 st))))
                   (fadd (q3 st) (fmul (Fin 1.5) (fsub (q3 st) (q1 st)))) vals 0 [],
      outCount = length (outlierLoop h (fsub (q1 st) (fmul (Fin 1.5) (fsub (q3 st) (q1 st))))
                   (fadd (q3 st) (fmul (Fin 1.5) (fsub (q3 st) (q1 st)))) vals 0 []),
      outPercentage = jmul (jdiv (ofNat (length (outlierLoop h (fsub (q1 st) (fmul (Fin 1.5) (fsub (q3 st) (q1 st))))
                   (fadd (q3 st) (fmul (Fin 1.5) (fsub (q3 st) (q1 st)))) vals 0 []))) (ofNat (length vals))) (Fin 100),
      lowerBound = Some (fsub (q1 st) (fmul (Fin 1.5) (fsub (q3 st) (q1 st)))),
      upperBound = Some (fadd (q3 st) (fmul (Fin 1.5) (fsub (q3 st) (q1 st))))\<rparr>"
  using assms by (simp add: detectOutliers_def Let_def)

lemma detectOutliers_None:
  "calculateStatistics h vals = None \<Longrightarrow> outliers (detectOutliers h vals) = []"
  by (simp add: detectOutliers_def)

lemma detectOutliers_member:
  assumes "e \<in> set (outliers (detectOutliers h vals))"
  shows "index e < length vals \<and> outValue e = toNumeric h (vals ! index e)"
proof (cases "calculateStatistics h vals")
  case None
  then show ?thesis using assms by (simp add: detectOutliers_None)
next
  case (Some st)
  show ?thesis
    using assms unfolding detectOutliers_Some [OF Some]
    by (auto simp: outlierLoop_member)
qed

lemma skewed_numeric: "numericValues h skewedColumn = [Fin 1, Fin 1, Fin 1, Fin 1, Fin 100]"
  by (simp add: skewedColumn_def numericValues_def nonNull_def isNaN_def)

lemma skewed_sorted: "numericSort [Fin 1, Fin 1, Fin 1, Fin 1, Fin 100] = [Fin 1, Fin 1, Fin 1, Fin 1, Fin 100]"
  by (simp add: numericSort_def less_eq_prod_def less_prod_def)

lemma skewed_stats:
  "\<exists>st. calculateStatistics h skewedColumn = Some st \<and> mean st = Fin 20.8 \<and> q1 st = Fin 1 \<and> q3 st = Fin 1"
  using calculateStatistics_Some [of h skewedColumn]
  by (simp add: skewed_numeric skewed_sorted quartileIndex_def ofNat_def) blast

lemma skewed_outliers:
  "detectOutliers h skewedColumn =
     \<lparr>outliers = [\<lparr>index = 4, outValue = Fin 100, outType = KHigh\<rparr>], outCount = 1,
      outPercentage = Fin 20, lowerBound = Some (Fin 1), upperBound = Some (Fin 1)\<rparr>"
proof -
  obtain st where st: "calculateStatistics h skewedColumn = Some st" "q1 st = Fin 1" "q3 st = Fin 1"
    using skewed_stats by blast
  show ?thesis
    unfolding detectOutliers_Some [OF st(1)] st(2,3)
    by (simp add: skewedColumn_def bound_simps jgt_def isNaN_def ofNat_def Let_def)
qed

lemma boundary_numeric:
  "numericValues h boundaryColumn = [Fin (- 2), Fin 1, Fin 1, Fin 2, Fin 3, Fin 6]"
  by (simp add: boundaryColumn_def numericValues_def nonNull_def isNaN_def)

lemma boundary_sorted:
  "numericSort [Fin (- 2), Fin 1, Fin 1, Fin 2, Fin 3, Fin 6] = [Fin (- 2), Fin 1, Fin 1, Fin 2, Fin 3, Fin 6]"
  by (simp add: numericSort_def less_eq_prod_def less_prod_def)

lemma boundary_stats:
  "\<exists>st. calculateStatistics h boundaryColumn = Some st \<and> q1 st = Fin 1 \<and> q3 st = Fin 3"
  using calculateStatistics_Some [of h boundaryColumn]
  by (simp add: boundary_numeric boundary_sorted quartileIndex_def) blast

lemma rounding_numeric:
  "numericValues h roundingColumn
     = [Fin 1, Fin 9007199254740994, Fin 9007199254740994, Fin 15011998757901656]"
  by (simp add: roundingColumn_def numericValues_def nonNull_def isNaN_def)

lemma rounding_sorted:
  "numericSort [Fin 1, Fin 9007199254740994, Fin 9007199254740994, Fin 15011998757901656]
     = [Fin 1, Fin 9007199254740994, Fin 9007199254740994, Fin 15011998757901656]"
  by (simp add: numericSort_def less_eq_prod_def less_prod_def)

text \<open>
  The rounding of the bounds is visible in the result. In the column 1, 9007199254740994,
  9007199254740994, 15011998757901656 the quartiles are 9007199254740994 and
  15011998757901656; one and a half times their difference is \<open>2^53 + 1\<close>, which is not a
  double and rounds to \<open>2^53\<close>. The lower bound is 2 and the value 1 is below it.
\<close>

lemma rounded_lower_bound_example:
  "lowerBound (detectOutliers h roundingColumn) = Some (Fin 2)
   \<and> upperBound (detectOutliers h roundingColumn) = Some (Fin 24019198012642648)
   \<and> outliers (detectOutliers h roundingColumn) = [\<lparr>index = 0, outValue = Fin 1, outType = KLow\<rparr>]"
proof -
  obtain st where st: "calculateStatistics h roundingColumn = Some st"
      "q1 st = Fin 9007199254740994" "q3 st = Fin 15011998757901656"
    using calculateStatistics_Some [of h roundingColumn]
    by (simp add: rounding_numeric rounding_sorted quartileIndex_def) blast
  have lo: "fsub (q1 st) (fmul (Fin 1.5) (fsub (q3 st) (q1 st))) = Fin 2"
    unfolding st(2,3) by (simp add: bound_simps roundDouble_large roundDouble_tie)
  have hi: "fadd (q3 st) (fmul (Fin 1.5) (fsub (q3 st) (q1 st))) = Fin 24019198012642648"
    unfolding st(2,3) by (simp add: bound_simps roundDouble_large roundDouble_tie)
  show ?thesis
    unfolding detectOutliers_Some [OF st(1)] lo hi
    by (simp add: roundingColumn_def jgt_def isNaN_def Let_def)
qed

text \<open>
  The same on decimal data. For the doubles nearest to 0.1, 0.4, 0.4 and 0.6 the quartiles
  are the doubles of 0.4 and 0.6, and the lower bound is \<open>7205759403792800 / 2^56\<close>, a double
  above the one of 0.1 (\<open>7205759403792794 / 2^56\<close>): the first value is reported as a low
  outlier. \<open>decimalHost\<close> parses the text \<open>0.1\<close> to that double.
\<close>

lemma decimal_numeric:
  "numericValues h decimalColumn
     = [Fin (3602879701896397 / 2 ^ 55), Fin (3602879701896397 / 2 ^ 53),
        Fin (3602879701896397 / 2 ^ 53), Fin (5404319552844595 / 2 ^ 53)]"
  by (simp add: decimalColumn_def numericValues_def nonNull_def isNaN_def)


lemma decimal_sorted:
  "numericSort [Fin (3602879701896397 / 2 ^ 55), Fin (3602879701896397 / 2 ^ 53),
        Fin (3602879701896397 / 2 ^ 53), Fin (5404319552844595 / 2 ^ 53)]
     = [Fin (3602879701896397 / 2 ^ 55), Fin (3602879701896397 / 2 ^ 53),
        Fin (3602879701896397 / 2 ^ 53), Fin (5404319552844595 / 2 ^ 53)]"
  by (rule numericSort_ascending_four) simp_all

lemma decimal_stats:
  "\<exists>st. calculateStatistics h decimalColumn = Some st \<and>
      q1 st = Fin (3602879701896397 / 2 ^ 53) \<and> q3 st = Fin (5404319552844595 / 2 ^ 53)"
proof -
  have n: "numericValues h decimalColumn \<noteq> []" by (simp add: decimal_numeric)
  obtain st where st: "calculateStatistics h decimalColumn = Some st"
    "q1 st = numericSort (numericValues h decimalColumn) ! quartileIndex (length (numericValues h decimalColumn)) 0.25"
    "q3 st = numericSort (numericValues h decimalColumn) ! quartileIndex (length (numericValues h decimalColumn)) 0.75"
    using calculateStatistics_Some [OF n] by blast
  have l: "length (numericValues h decimalColumn) = 4" by (simp add: decimal_numeric)
  have i: "quartileIndex 4 0.25 = 1" "quartileIndex 4 0.75 = 3"
    by (simp_all add: quartileIndex_def)
  have "q1 st = Fin (3602879701896397 / 2 ^ 53)"
    unfolding st(2) l i unfolding decimal_numeric decimal_sorted by simp
  moreover have "q3 st = Fin (5404319552844595 / 2 ^ 53)"
    unfolding st(3) l i unfolding decimal_numeric decimal_sorted by simp
  ultimately show ?thesis using st(1) by blast
qed

lemma decimal_bounds:
  "fsub (Fin (5404319552844595 / 2 ^ 53)) (Fin (3602879701896397 / 2 ^ 53)) = Fin (7205759403792792 / 2 ^ 55)"
  "fmul (Fin 1.5) (Fin (7205759403792792 / 2 ^ 55)) = Fin (5404319552844594 / 2 ^ 54)"
  "fsub (Fin (3602879701896397 / 2 ^ 53)) (Fin (5404319552844594 / 2 ^ 54)) = Fin (7205759403792800 / 2 ^ 56)"
  "fadd (Fin (5404319552844595 / 2 ^ 53)) (Fin (5404319552844594 / 2 ^ 54)) = Fin (8106479329266892 / 2 ^ 53)"
proof -
  have a: "5404319552844595 / 2 ^ 53 - 3602879701896397 / 2 ^ 53 = (real_of_int 7205759403792792 / 2 ^ 55)"
    by simp
  show "fsub (Fin (5404319552844595 / 2 ^ 53)) (Fin (3602879701896397 / 2 ^ 53)) = Fin (7205759403792792 / 2 ^ 55)"
    unfolding fsub_def jsub_def jneg.simps jadd.simps fround.simps minus_real_def [symmetric] a
    using roundDouble_scaled_down [of 7205759403792792 55] by simp
  have b: "1.5 * (7205759403792792 / 2 ^ 55) = (real_of_int 5404319552844594 / 2 ^ 54)"
    by simp
  show "fmul (Fin 1.5) (Fin (7205759403792792 / 2 ^ 55)) = Fin (5404319552844594 / 2 ^ 54)"
    unfolding fmul_def jmul.simps fround.simps b
    using roundDouble_scaled_down [of 5404319552844594 54] by simp
  have c: "3602879701896397 / 2 ^ 53 - 5404319552844594 / 2 ^ 54 = (real_of_int 7205759403792800 / 2 ^ 56)"
    by simp
  show "fsub (Fin (3602879701896397 / 2 ^ 53)) (Fin (5404319552844594 / 2 ^ 54)) = Fin (7205759403792800 / 2 ^ 56)"
    unfolding fsub_def jsub_def jneg.simps jadd.simps fround.simps minus_real_def [symmetric] c
    using roundDouble_scaled_down [of 7205759403792800 56] by simp
  have d: "5404319552844595 / 2 ^ 53 + 5404319552844594 / 2 ^ 54 = (real_of_int 8106479329266892 / 2 ^ 53)"
    by simp
  show "fadd (Fin (5404319552844595 / 2 ^ 53)) (Fin (5404319552844594 / 2 ^ 54)) = Fin (8106479329266892 / 2 ^ 53)"
    unfolding fadd_def jadd.simps fround.simps d
    using roundDouble_scaled_down [of 8106479329266892 53] by simp
qed

lemma decimal_lower_bound_example:
  "lowerBound (detectOutliers h decimalColumn) = Some (Fin (7205759403792800 / 2 ^ 56))
   \<and> upperBound (detectOutliers h decimalColumn) = Some (Fin (8106479329266892 / 2 ^ 53))
   \<and> outliers (detectOutliers h decimalColumn)
       = [\<lparr>index = 0, outValue = Fin (3602879701896397 / 2 ^ 55), outType = KLow\<rparr>]"
proof -
  obtain st where st: "calculateStatistics h decimalColumn = Some st"
      "q1 st = Fin (3602879701896397 / 2 ^ 53)" "q3 st = Fin (5404319552844595 / 2 ^ 53)"
    using decimal_stats by blast
  show ?thesis
    unfolding detectOutliers_Some [OF st(1)] st(2,3) decimal_bounds
    by (simp add: decimalColumn_def jgt_def isNaN_def Let_def)
qed

lemma decParseFloat_tenth: "decParseFloat ''0.1'' = Fin (3602879701896397 / 2 ^ 55)"
proof -
  have "parsePrefix ''0.1'' = Some (1 / 10, [])"
    by (simp add: parsePrefix_def isDigit_def decValue_def digitVal_def)
  then show ?thesis
    using roundDouble_tenth by (simp add: decParseFloat_def isSpace_def)
qed


text \<open>
  Claim C4 (amended). For the column 1, 1, 1, 1, 100 the mean is 20.8, \<open>q1\<close> and \<open>q3\<close> are 1,
  both outlier bounds are 1, and the only outlier is the value 100 at position 4, flagged
  high. For every column, the two reported bounds are \<open>q1 - 1.5 * IQR\<close> and
  \<open>q3 + 1.5 * IQR\<close> with \<open>IQR = q3 - q1\<close>, as the engine computes them in double
  arithmetic, and a value equal to one of them is not in the outlier list.
\<close>

theorem skewed_column_outliers:
  "map_option (\<lambda>st. (mean st, q1 st, q3 st)) (calculateStatistics h skewedColumn)
     = Some (Fin 20.8, Fin 1, Fin 1)
   \<and> lowerBound (detectOutliers h skewedColumn) = Some (Fin 1)
   \<and> upperBound (detectOutliers h skewedColumn) = Some (Fin 1)
   \<and> outliers (detectOutliers h skewedColumn) = [\<lparr>index = 4, outValue = Fin 100, outType = KHigh\<rparr>]
   \<and> (\<forall>st i. calculateStatistics h vals = Some st \<and> i < length vals
          \<and> (toNumeric h (vals ! i) = fsub (q1 st) (fmul (Fin 1.5) (fsub (q3 st) (q1 st)))
              \<or> toNumeric h (vals ! i) = fadd (q3 st) (fmul (Fin 1.5) (fsub (q3 st) (q1 st))))
        \<longrightarrow> lowerBound (detectOutliers h vals) = Some (fsub (q1 st) (fmul (Fin 1.5) (fsub (q3 st) (q1 st))))
          \<and> upperBound (detectOutliers h vals) = Some (fadd (q3 st) (fmul (Fin 1.5) (fsub (q3 st) (q1 st))))
          \<and> i \<notin> index ` set (outliers (detectOutliers h vals)))"
proof (intro conjI allI impI)
  show "map_option (\<lambda>st. (mean st, q1 st, q3 st)) (calculateStatistics h skewedColumn)
     = Some (Fin 20.8, Fin 1, Fin 1)"
    using skewed_stats [of h] by auto
next
  fix st i
  assume a: "calculateStatistics h vals = Some st \<and> i < length vals
          \<and> (toNumeric h (vals ! i) = fsub (q1 st) (fmul (Fin 1.5) (fsub (q3 st) (q1 st)))
              \<or> toNumeric h (vals ! i) = fadd (q3 st) (fmul (Fin 1.5) (fsub (q3 st) (q1 st))))"
  let ?lo = "fsub (q1 st) (fmul (Fin 1.5) (fsub (q3 st) (q1 st)))"
  let ?hi = "fadd (q3 st) (fmul (Fin 1.5) (fsub (q3 st) (q1 st)))"
  have ord: "\<not> jlt ?hi ?lo"
    using rounded_bounds_ordered [OF quartiles_ordered] a by blast
  show "lowerBound (detectOutliers h vals) = Some ?lo"
    using a by (simp add: detectOutliers_Some)
  show "upperBound (detectOutliers h vals) = Some ?hi"
    using a by (simp add: detectOutliers_Some)
  show "i \<notin> index ` set (outliers (detectOutliers h vals))"
  proof
    assume "i \<in> index ` set (outliers (detectOutliers h vals))"
    then obtain e where e: "e \<in> set (outlierLoop h ?lo ?hi vals 0 [])" "index e = i"
      using a by (auto simp: detectOutliers_Some)
    then have "flagged h ?lo ?hi (vals ! i)"
      by (auto simp: outlierLoop_member)
    then show False
      using a ord by (auto simp: flagged_def jgt_def)
  qed
qed (simp_all add: skewed_outliers)

text \<open>
  In the column -2, 1, 1, 2, 3, 6 the quartiles are 1 and 3 and the bounds are -2 and 6: the
  first and the last value lie on a bound, and no value is reported.
\<close>

theorem skewed_column_outliers_witness:
  "(\<exists>st. calculateStatistics decimalHost boundaryColumn = Some st
        \<and> toNumeric decimalHost (boundaryColumn ! 0) = fsub (q1 st) (fmul (Fin 1.5) (fsub (q3 st) (q1 st)))
        \<and> toNumeric decimalHost (boundaryColumn ! 5) = fadd (q3 st) (fmul (Fin 1.5) (fsub (q3 st) (q1 st))))
   \<and> (5::nat) < length boundaryColumn
   \<and> lowerBound (detectOutliers decimalHost boundaryColumn) = Some (Fin (- 2))
   \<and> upperBound (detectOutliers decimalHost boundaryColumn) = Some (Fin 6)
   \<and> 0 \<notin> index ` set (outliers (detectOutliers decimalHost boundaryColumn))
   \<and> 5 \<notin> index ` set (outliers (detectOutliers decimalHost boundaryColumn))"
proof -
  obtain st where st: "calculateStatistics decimalHost boundaryColumn = Some st" "q1 st = Fin 1" "q3 st = Fin 3"
    using boundary_stats by blast
  have lo: "fsub (q1 st) (fmul (Fin 1.5) (fsub (q3 st) (q1 st))) = Fin (- 2)"
    by (simp add: st bound_simps)
  have hi: "fadd (q3 st) (fmul (Fin 1.5) (fsub (q3 st) (q1 st))) = Fin 6"
    by (simp add: st bound_simps)
  have v0: "toNumeric decimalHost (boundaryColumn ! 0) = fsub (q1 st) (fmul (Fin 1.5) (fsub (q3 st) (q1 st)))"
    unfolding lo by (simp add: boundaryColumn_def)
  have v5: "toNumeric decimalHost (boundaryColumn ! 5) = fadd (q3 st) (fmul (Fin 1.5) (fsub (q3 st) (q1 st)))"
    unfolding hi by (simp add: boundaryColumn_def)
  have len: "(0::nat) < length boundaryColumn" "(5::nat) < length boundaryColumn"
    by (simp_all add: boundaryColumn_def)
  from skewed_column_outliers [of decimalHost boundaryColumn] st(1) v0 v5 len
  have r: "lowerBound (detectOutliers decimalHost boundaryColumn)
             = Some (fsub (q1 st) (fmul (Fin 1.5) (fsub (q3 st) (q1 st))))
      \<and> upperBound (detectOutliers decimalHost boundaryColumn)
             = Some (fadd (q3 st) (fmul (Fin 1.5) (fsub (q3 st) (q1 st))))
      \<and> 0 \<notin> index ` set (outliers (detectOutliers decimalHost boundaryColumn))
      \<and> 5 \<notin> index ` set (outliers (detectOutliers decimalHost boundaryColumn))"
    by blast
  from r lo hi have "lowerBound (detectOutliers decimalHost boundaryColumn) = Some (Fin (- 2))
      \<and> upperBound (detectOutliers decimalHost boundaryColumn) = Some (Fin 6)"
    by simp
  with r st(1) v0 v5 len show ?thesis by blast
qed

text \<open>The mean of that column is not 20.6, the value the claim gives.\<close>

theorem skewed_column_mean_counterexample:
  "map_option mean (calculateStatistics decimalHost skewedColumn) \<noteq> Some (Fin 20.6)"
  using skewed_stats [of decimalHost] by auto

section \<open>Column objects and outlier positions\<close>

lemma map_of_obj_set: "map_of (obj_set k v ob) = (map_of ob)(k \<mapsto> v)"
  by (induction ob) (auto simp: fun_eq_iff)

lemma obj_get_foldl_set:
  "obj_get (foldl (\<lambda>acc k. obj_set k (f k) acc) ob ks) k
     = (if k \<in> set ks then Some (f k) else obj_get ob k)"
proof (induction ks arbitrary: ob)
  case Nil
  show ?case by simp
next
  case (Cons a ks)
  show ?case
    by (simp add: Cons.IH) (simp add: obj_get_def map_of_obj_set)
qed

lemma obj_get_Nil [simp]: "obj_get [] k = None"
  by (simp add: obj_get_def)

lemma columnStats_analyze:
  "columnStats (analyzeDataQuality h d)
     = foldl (\<lambda>acc header. obj_set header
                (columnStatOf h d (findMissingValues d) (analyzeDataTypes h d) header) acc)
         [] (headers d)"
  by (simp add: analyzeDataQuality_def Let_def)

lemma columnValues_nth:
  "i < length (rows d) \<Longrightarrow> columnValues d header ! i = getCell (rows d ! i) header"
  by (simp add: columnValues_def)

lemma columnValues_length [simp]: "length (columnValues d header) = length (rows d)"
  by (simp add: columnValues_def)

lemma colOutliers_columnStatOf:
  "colOutliers (columnStatOf h d mv dts header) = Some r \<Longrightarrow> r = detectOutliers h (columnValues d header)"
  by (auto simp: columnStatOf_def Let_def split: if_splits)

lemma nullSkewed_outliers:
  "outliers (detectOutliers h (Null # skewedColumn)) = [\<lparr>index = 5, outValue = Fin 100, outType = KHigh\<rparr>]"
proof -
  have n: "numericValues h (Null # skewedColumn) = [Fin 1, Fin 1, Fin 1, Fin 1, Fin 100]"
    by (simp add: skewedColumn_def numericValues_def nonNull_def isNaN_def)
  obtain st where st: "calculateStatistics h (Null # skewedColumn) = Some st" "q1 st = Fin 1" "q3 st = Fin 1"
    using calculateStatistics_Some [of h "Null # skewedColumn"]
    by (simp add: n skewed_sorted quartileIndex_def) blast
  show ?thesis
    unfolding detectOutliers_Some [OF st(1)] st(2,3)
    by (simp add: skewedColumn_def bound_simps jgt_def isNaN_def Let_def)
qed

text \<open>
  Claim C10. The index of every entry of the outlier list of detectOutliers is a position
  of the full input sequence, and the value at that position coerces to the reported value.
  In the analysis the sequence of a column is built in row order, so the index is the index
  of the row that holds the value. With a leading null before 1, 1, 1, 1, 100 the outlier
  100 is reported at index 5, its place in the input, and not at 4, its place among the
  numeric values.
\<close>

theorem outlier_index_is_row_index:
  "(\<forall>e \<in> set (outliers (detectOutliers h vals)).
       index e < length vals \<and> outValue e = toNumeric h (vals ! index e))
   \<and> (\<forall>header cst r e.
         obj_get (columnStats (analyzeDataQuality h d)) header = Some cst
         \<and> colOutliers cst = Some r \<and> e \<in> set (outliers r)
         \<longrightarrow> index e < length (rows d)
             \<and> outValue e = toNumeric h (getCell (rows d ! index e) header))
   \<and> map index (outliers (detectOutliers h (Null # skewedColumn))) = [5]"
proof (intro conjI ballI allI impI)
  fix e assume "e \<in> set (outliers (detectOutliers h vals))"
  from detectOutliers_member [OF this]
  show "index e < length vals" "outValue e = toNumeric h (vals ! index e)" by simp_all
next
  fix header cst r e
  assume a: "obj_get (columnStats (analyzeDataQuality h d)) header = Some cst
         \<and> colOutliers cst = Some r \<and> e \<in> set (outliers r)"
  then have "cst = columnStatOf h d (findMissingValues d) (analyzeDataTypes h d) header"
    by (simp add: columnStats_analyze obj_get_foldl_set split: if_splits)
  with a have r: "r = detectOutliers h (columnValues d header)"
    using colOutliers_columnStatOf by blast
  with a have m: "index e < length (columnValues d header)
      \<and> outValue e = toNumeric h (columnValues d header ! index e)"
    using detectOutliers_member by blast
  then show "index e < length (rows d)" by simp
  with m show "outValue e = toNumeric h (getCell (rows d ! index e) header)"
    by (simp add: columnValues_nth)
next
  show "map index (outliers (detectOutliers h (Null # skewedColumn))) = [5]"
    by (simp add: nullSkewed_outliers)
qed

lemma ageColumn_values: "columnValues ageColumnDataset ''age'' = Null # skewedColumn"
  by (simp add: columnValues_def ageColumnDataset_def skewedColumn_def getCell_def)

lemma detectDataType_numbers:
  "detectDataType h (Null # skewedColumn) = \<lparr>type = TNumber, confidence = Fin 1, nullable = True, mixedTypes = False\<rparr>"
  by (simp add: detectDataType_def skewedColumn_def nonNull_def Let_def tallyStep_def
      isBooleanValue_def isNumberValue_def typeEntries_def reduceMax_def ofNat_def)

lemma analyzeDataTypes_get:
  "obj_get (analyzeDataTypes h d) header
     = (if header \<in> set (headers d) then Some (detectDataType h (columnValues d header)) else None)"
  by (simp add: analyzeDataTypes_def obj_get_foldl_set)

lemma columnStats_get:
  "obj_get (columnStats (analyzeDataQuality h d)) header
     = (if header \<in> set (headers d)
        then Some (columnStatOf h d (findMissingValues d) (analyzeDataTypes h d) header) else None)"
  by (simp add: columnStats_analyze obj_get_foldl_set)

lemma ageColumn_colOutliers:
  "colOutliers (columnStatOf h ageColumnDataset mv (analyzeDataTypes h ageColumnDataset) ''age'')
     = Some (detectOutliers h (Null # skewedColumn))"
  by (simp add: columnStatOf_def Let_def analyzeDataTypes_get ageColumn_values detectDataType_numbers)
     (simp add: ageColumnDataset_def)

theorem outlier_index_is_row_index_witness:
  "\<exists>cst r e. obj_get (columnStats (analyzeDataQuality decimalHost ageColumnDataset)) ''age'' = Some cst
      \<and> colOutliers cst = Some r \<and> e \<in> set (outliers r) \<and> index e = 5
      \<and> index e < length (rows ageColumnDataset)
      \<and> outValue e = toNumeric decimalHost (getCell (rows ageColumnDataset ! index e) ''age'')"
proof -
  let ?cst = "columnStatOf decimalHost ageColumnDataset (findMissingValues ageColumnDataset)
                (analyzeDataTypes decimalHost ageColumnDataset) ''age''"
  let ?r = "detectOutliers decimalHost (Null # skewedColumn)"
  let ?e = "\<lparr>index = 5, outValue = Fin 100, outType = KHigh\<rparr>"
  have g: "obj_get (columnStats (analyzeDataQuality decimalHost ageColumnDataset)) ''age'' = Some ?cst"
    by (simp add: columnStats_get) (simp add: ageColumnDataset_def)
  have c: "colOutliers ?cst = Some ?r"
    by (rule ageColumn_colOutliers)
  have m: "?e \<in> set (outliers ?r)"
    by (simp add: nullSkewed_outliers)
  from outlier_index_is_row_index [of decimalHost "Null # skewedColumn" ageColumnDataset] g c m
  have "index ?e < length (rows ageColumnDataset)
      \<and> outValue ?e = toNumeric decimalHost (getCell (rows ageColumnDataset ! index ?e) ''age'')"
    by blast
  with g c m show ?thesis by (intro exI [of _ ?cst] exI [of _ ?r] exI [of _ ?e]) simp
qed

section \<open>The dominant type\<close>

lemma tally_counts:
  "foldl (tallyStep h) t vs =
     \<lparr>numberCount = numberCount t + typeCount h TNumber vs,
      stringCount = stringCount t + typeCount h TString vs,
      booleanCount = booleanCount t + typeCount h TBoolean vs,
      dateCount = dateCount t + typeCount h TDate vs\<rparr>"
proof (induction vs arbitrary: t)
  case Nil
  show ?case by (simp add: typeCount_def)
next
  case (Cons v vs)
  show ?case
    by (simp add: Cons.IH) (simp add: tallyStep_def typeCount_def classify_def)
qed

lemma reduceMax_entries:
  "reduceMax (typeEntries \<lparr>numberCount = a, stringCount = b, booleanCount = c, dateCount = d\<rparr> n) =
     (if a \<ge> b \<and> a \<ge> c \<and> a \<ge> d
      then \<lparr>te_type = TNumber, te_count = a, te_confidence = jdiv (ofNat a) (ofNat n)\<rparr>
      else if b \<ge> c \<and> b \<ge> d
      then \<lparr>te_type = TString, te_count = b, te_confidence = jdiv (ofNat b) (ofNat n)\<rparr>
      else if c \<ge> d
      then \<lparr>te_type = TBoolean, te_count = c, te_confidence = jdiv (ofNat c) (ofNat n)\<rparr>
      else \<lparr>te_type = TDate, te_count = d, te_confidence = jdiv (ofNat d) (ofNat n)\<rparr>)"
  by (simp add: reduceMax_def typeEntries_def)

lemma detectDataType_nonempty:
  assumes "filter nonNull vals \<noteq> []"
  shows "detectDataType h vals =
     (let nn = filter nonNull vals;
          e = reduceMax (typeEntries
                \<lparr>numberCount = typeCount h TNumber nn, stringCount = typeCount h TString nn,
                 booleanCount = typeCount h TBoolean nn, dateCount = typeCount h TDate nn\<rparr> (length nn))
      in \<lparr>type = te_type e, confidence = te_confidence e,
          nullable = (length vals > length nn),
          mixedTypes = (length (filter (\<lambda>e. te_count e > 0) (typeEntries
                \<lparr>numberCount = typeCount h TNumber nn, stringCount = typeCount h TString nn,
                 booleanCount = typeCount h TBoolean nn, dateCount = typeCount h TDate nn\<rparr> (length nn))) > 1)\<rparr>)"
  using assms by (simp add: detectDataType_def Let_def tally_counts)

lemma jdiv_ofNat: "n \<noteq> 0 \<Longrightarrow> jdiv (ofNat a) (ofNat n) = Fin (real a / real n)"
  by (simp add: ofNat_def)

text \<open>
  Claim C9 (amended). For a column with at least one value that detectDataType keeps (a
  value that is not null, not undefined and not the empty string; a string of white space
  only is kept, although the missing-value analysis counts it as missing), the reported type
  is one of number, string, boolean and date; no class has a larger tally than the reported
  one among the per-value classifications of the kept values; every class that comes before
  it in the order number, string, boolean, date has a strictly smaller tally, so the first
  maximum wins a tie; and the confidence is the tally of the reported type divided by the
  number of kept values.
\<close>

theorem dominant_type_first_maximum:
  assumes "filter nonNull vals \<noteq> []"
  shows "let nn = filter nonNull vals; r = detectDataType h vals in
     type r \<in> set typeOrder \<and>
     (\<forall>T \<in> set typeOrder. typeCount h T nn \<le> typeCount h (type r) nn) \<and>
     (\<forall>T \<in> set (takeWhile (\<lambda>T. T \<noteq> type r) typeOrder). typeCount h T nn < typeCount h (type r) nn) \<and>
     confidence r = Fin (real (typeCount h (type r) nn) / real (length nn))"
proof -
  have n: "length (filter nonNull vals) \<noteq> 0" using assms by simp
  show ?thesis
    unfolding Let_def detectDataType_nonempty [OF assms] reduceMax_entries
    by (auto simp: typeOrder_def jdiv_ofNat [OF n])
qed


lemmas decimalHost_simps =
  decimalHost_def decToNumber_def decParseFloat_def parsePrefix_def trim_def isSpace_def
  isDigit_def decValue_def digitVal_def isoDateValid_def

lemmas classify_simps =
  classify_def isBooleanValue_def isNumberValue_def toLowerCase_def lowerChar_def
  booleanWords_def isNaN_def datePatterns_def

lemma mixedColumn_nonNull:
  "filter nonNull mixedColumn = [Num (Fin 1), Text ''abc'', Bool True, Text ''12'', Text ''yes'']"
  by (simp add: mixedColumn_def nonNull_def)

lemma mixedColumn_classes:
  "map (classify decimalHost) [Num (Fin 1), Text ''abc'', Bool True, Text ''12'', Text ''yes'']
     = [TNumber, TString, TBoolean, TNumber, TBoolean]"
  by (simp add: classify_simps decimalHost_simps Let_def)

lemma typeCount_map:
  "typeCount h T vs = length (filter (\<lambda>t. t = T) (map (classify h) vs))"
  by (simp add: typeCount_def filter_map comp_def)

lemma mixedColumn_counts:
  "typeCount decimalHost TNumber (filter nonNull mixedColumn) = 2"
  "typeCount decimalHost TBoolean (filter nonNull mixedColumn) = 2"
  "typeCount decimalHost TString (filter nonNull mixedColumn) = 1"
  "typeCount decimalHost TDate (filter nonNull mixedColumn) = 0"
  unfolding typeCount_map mixedColumn_nonNull mixedColumn_classes by simp_all

lemma mixedColumn_type: "type (detectDataType decimalHost mixedColumn) = TNumber"
proof -
  have ne: "filter nonNull mixedColumn \<noteq> []" by (simp add: mixedColumn_nonNull)
  show ?thesis
    unfolding detectDataType_nonempty [OF ne] Let_def mixedColumn_counts reduceMax_entries by simp
qed

theorem dominant_type_first_maximum_witness:
  "filter nonNull mixedColumn \<noteq> []
   \<and> type (detectDataType decimalHost mixedColumn) = TNumber
   \<and> typeCount decimalHost TNumber (filter nonNull mixedColumn) = 2
   \<and> typeCount decimalHost TBoolean (filter nonNull mixedColumn) = 2
   \<and> confidence (detectDataType decimalHost mixedColumn) = Fin (2 / 5)"
proof -
  have ne: "filter nonNull mixedColumn \<noteq> []" by (simp add: mixedColumn_nonNull)
  have len: "length (filter nonNull mixedColumn) = 5" by (simp add: mixedColumn_nonNull)
  from dominant_type_first_maximum [OF ne, of decimalHost]
  have "confidence (detectDataType decimalHost mixedColumn) = Fin (2 / 5)"
    by (simp add: Let_def mixedColumn_type mixedColumn_counts len)
  then show ?thesis
    using ne by (simp add: mixedColumn_type mixedColumn_counts)
qed

lemma whitespaceColumn_kept:
  "filter nonNull whitespaceColumn = [Text '' '', Text '' '', Num (Fin 5)]"
  "filter (\<lambda>v. \<not> isMissing v) whitespaceColumn = [Num (Fin 5)]"
  by (simp_all add: whitespaceColumn_def nonNull_def isMissing_def trim_def isSpace_def)

lemma whitespaceColumn_classes:
  "map (classify decimalHost) [Text '' '', Text '' '', Num (Fin 5)] = [TString, TString, TNumber]"
  by (simp add: classify_simps decimalHost_simps Let_def)

lemma whitespaceColumn_result:
  "type (detectDataType decimalHost whitespaceColumn) = TString"
  "confidence (detectDataType decimalHost whitespaceColumn) = Fin (2 / 3)"
proof -
  have ne: "filter nonNull whitespaceColumn \<noteq> []" by (simp add: whitespaceColumn_kept)
  have c: "typeCount decimalHost TNumber (filter nonNull whitespaceColumn) = 1"
      "typeCount decimalHost TString (filter nonNull whitespaceColumn) = 2"
      "typeCount decimalHost TBoolean (filter nonNull whitespaceColumn) = 0"
      "typeCount decimalHost TDate (filter nonNull whitespaceColumn) = 0"
    unfolding typeCount_map whitespaceColumn_kept whitespaceColumn_classes by simp_all
  show "type (detectDataType decimalHost whitespaceColumn) = TString"
    unfolding detectDataType_nonempty [OF ne] Let_def c reduceMax_entries by simp
  show "confidence (detectDataType decimalHost whitespaceColumn) = Fin (2 / 3)"
    unfolding detectDataType_nonempty [OF ne] Let_def c reduceMax_entries
    by (simp add: whitespaceColumn_kept ofNat_def)
qed

text \<open>
  In the column of two strings of one space and the number 5, the number is the only value
  that is not missing, and its class is number. detectDataType keeps the two strings,
  classifies them as strings and reports the type string with confidence 2/3: the reported
  type has no value among the values that are not missing, and the confidence is not a
  count divided by their number, which is 1.
\<close>

theorem dominant_type_whitespace_counterexample:
  "filter (\<lambda>v. \<not> isMissing v) whitespaceColumn = [Num (Fin 5)]
   \<and> map (classify decimalHost) (filter (\<lambda>v. \<not> isMissing v) whitespaceColumn) = [TNumber]
   \<and> type (detectDataType decimalHost whitespaceColumn) = TString
   \<and> typeCount decimalHost TString (filter (\<lambda>v. \<not> isMissing v) whitespaceColumn) = 0
   \<and> typeCount decimalHost TNumber (filter (\<lambda>v. \<not> isMissing v) whitespaceColumn) = 1
   \<and> confidence (detectDataType decimalHost whitespaceColumn) = Fin (2 / 3)"
proof -
  have c: "classify decimalHost (Num (Fin 5)) = TNumber"
    by (simp add: classify_simps)
  show ?thesis
    by (simp add: whitespaceColumn_kept whitespaceColumn_result typeCount_map c)
qed

section \<open>Duplicate rows\<close>

lemma firstIndex_None: "firstIndex xs x = None \<longleftrightarrow> x \<notin> set xs"
  by (induction xs) auto

lemma firstIndex_Some:
  "firstIndex xs x = Some k \<longleftrightarrow> k < length xs \<and> xs ! k = x \<and> (\<forall>j < k. xs ! j \<noteq> x)"
proof (induction xs arbitrary: k)
  case Nil
  show ?case by simp
next
  case (Cons y ys)
  show ?case
  proof (cases "x = y")
    case True
    then show ?thesis by (cases k) auto
  next
    case False
    show ?thesis
    proof (cases k)
      case 0
      then show ?thesis using False by auto
    next
      case (Suc k')
      have "(\<forall>j < Suc k'. (y # ys) ! j \<noteq> x) \<longleftrightarrow> (\<forall>j < k'. ys ! j \<noteq> x)"
        using False by (auto simp: less_Suc_eq_0_disj)
      then show ?thesis using False Suc Cons.IH [of k'] by auto
    qed
  qed
qed

lemma firstIndex_append:
  "firstIndex (xs @ ys) x =
     (case firstIndex xs x of Some k \<Rightarrow> Some k
      | None \<Rightarrow> (case firstIndex ys x of None \<Rightarrow> None | Some k \<Rightarrow> Some (length xs + k)))"
  by (induction xs) (auto split: option.splits)

lemma dupLoop_member:
  assumes "seen = firstIndex (map (rowHash h hs) ps)"
  shows "e \<in> set (dupLoop h hs rs (length ps) seen dups) \<longleftrightarrow>
     e \<in> set dups \<or>
     (\<exists>k < length rs. \<exists>orig. firstIndex (map (rowHash h hs) (ps @ rs)) (rowHash h hs (rs ! k)) = Some orig
         \<and> orig < length ps + k
         \<and> e = \<lparr>originalRow = orig, duplicateRow = length ps + k, data = rs ! k\<rparr>)"
  using assms
proof (induction rs arbitrary: ps seen dups)
  case Nil
  show ?case by simp
next
  case (Cons r rs)
  let ?H = "rowHash h hs"
  let ?Q = "\<lambda>ps rs k orig. firstIndex (map ?H (ps @ rs)) (?H (rs ! k)) = Some orig
         \<and> orig < length ps + k
         \<and> e = \<lparr>originalRow = orig, duplicateRow = length ps + k, data = rs ! k\<rparr>"
  have split: "(\<exists>k < length (r # rs). \<exists>orig. ?Q ps (r # rs) k orig)
      \<longleftrightarrow> (\<exists>orig. ?Q ps (r # rs) 0 orig) \<or> (\<exists>k < length rs. \<exists>orig. ?Q (ps @ [r]) rs k orig)"
    by (auto simp: less_Suc_eq_0_disj)
  show ?case
  proof (cases "seen (?H r)")
    case None
    have seen': "seen(?H r \<mapsto> length ps) = firstIndex (map ?H (ps @ [r]))"
      using Cons.prems None by (auto simp: fun_eq_iff firstIndex_append split: option.splits)
    have zero: "\<not> (\<exists>orig. ?Q ps (r # rs) 0 orig)"
      using None Cons.prems by (auto simp: firstIndex_append)
    have step: "dupLoop h hs (r # rs) (length ps) seen dups
        = dupLoop h hs rs (length (ps @ [r])) (seen(?H r \<mapsto> length ps)) dups"
      using None by simp
    have ih: "e \<in> set (dupLoop h hs rs (length (ps @ [r])) (seen(?H r \<mapsto> length ps)) dups) \<longleftrightarrow>
        e \<in> set dups \<or> (\<exists>k < length rs. \<exists>orig. ?Q (ps @ [r]) rs k orig)"
      by (rule Cons.IH [OF seen'])
    show ?thesis
      unfolding step ih split using zero by blast
  next
    case (Some orig)
    then have fi: "firstIndex (map ?H ps) (?H r) = Some orig"
      using Cons.prems by simp
    then have lt: "orig < length ps"
      by (simp add: firstIndex_Some)
    have seen': "seen = firstIndex (map ?H (ps @ [r]))"
      using Cons.prems fi by (auto simp: fun_eq_iff firstIndex_append split: option.splits)
    let ?d = "\<lparr>originalRow = orig, duplicateRow = length ps, data = r\<rparr>"
    have zero: "(\<exists>orig'. ?Q ps (r # rs) 0 orig') \<longleftrightarrow> e = ?d"
      using fi lt by (auto simp: firstIndex_append)
    have step: "dupLoop h hs (r # rs) (length ps) seen dups
        = dupLoop h hs rs (length (ps @ [r])) seen (dups @ [?d])"
      using Some by simp
    have ih: "e \<in> set (dupLoop h hs rs (length (ps @ [r])) seen (dups @ [?d])) \<longleftrightarrow>
        e \<in> set (dups @ [?d]) \<or> (\<exists>k < length rs. \<exists>orig. ?Q (ps @ [r]) rs k orig)"
      by (rule Cons.IH [OF seen'])
    have mem: "e \<in> set (dups @ [?d]) \<longleftrightarrow> e \<in> set dups \<or> e = ?d"
      by auto
    show ?thesis
      unfolding step ih split mem using zero by blast
  qed
qed

lemma duplicates_findDuplicates:
  "duplicates (findDuplicates h d) = dupLoop h (headers d) (rows d) 0 Map.empty []"
  by (simp add: findDuplicates_def Let_def)

lemma duplicates_member:
  "e \<in> set (duplicates (findDuplicates h d)) \<longleftrightarrow>
     (\<exists>k < length (rows d). \<exists>orig.
         firstIndex (map (rowHash h (headers d)) (rows d)) (rowHash h (headers d) (rows d ! k)) = Some orig
         \<and> orig < k
         \<and> e = \<lparr>originalRow = orig, duplicateRow = k, data = rows d ! k\<rparr>)"
  using dupLoop_member [of Map.empty h "headers d" "[]" e "rows d" "[]"]
  by (simp add: duplicates_findDuplicates fun_eq_iff)

lemma classOf_firstIndex:
  assumes j: "j < length (rows d)"
  shows "firstIndex (map (rowHash h (headers d)) (rows d)) (rowHash h (headers d) (rows d ! j))
           = Some (classOf (duplicates (findDuplicates h d)) j)"
proof -
  let ?hs = "map (rowHash h (headers d)) (rows d)"
  let ?x = "rowHash h (headers d) (rows d ! j)"
  let ?dups = "duplicates (findDuplicates h d)"
  have "?x \<in> set ?hs" using j by auto
  then obtain orig where orig: "firstIndex ?hs ?x = Some orig"
    by (cases "firstIndex ?hs ?x") (auto simp: firstIndex_None)
  have le: "orig \<le> j"
    using orig j by (auto simp: firstIndex_Some not_less [symmetric])
  have only: "originalRow e = orig" if "e \<in> set ?dups" "duplicateRow e = j" for e
    using that orig by (auto simp: duplicates_member)
  show ?thesis
  proof (cases "orig < j")
    case True
    then have "\<lparr>originalRow = orig, duplicateRow = j, data = rows d ! j\<rparr> \<in> set ?dups"
      using orig j by (auto simp: duplicates_member)
    then obtain e where e: "find (\<lambda>e. duplicateRow e = j) ?dups = Some e"
      by (cases "find (\<lambda>e. duplicateRow e = j) ?dups") (auto simp: find_None_iff)
    then have "e \<in> set ?dups \<and> duplicateRow e = j"
      by (auto simp: find_Some_iff)
    then show ?thesis using only e orig by (simp add: classOf_def)
  next
    case False
    then have eq: "orig = j" using le by simp
    have "find (\<lambda>e. duplicateRow e = j) ?dups = None"
      using eq orig by (auto simp: find_None_iff duplicates_member)
    then show ?thesis using eq orig by (simp add: classOf_def)
  qed
qed

lemma same_hash_same_class:
  assumes "i < length (rows d)" "j < length (rows d)"
    and "rowHash h (headers d) (rows d ! i) = rowHash h (headers d) (rows d ! j)"
  shows "classOf (duplicates (findDuplicates h d)) i = classOf (duplicates (findDuplicates h d)) j"
  using classOf_firstIndex [OF assms(1), of h] classOf_firstIndex [OF assms(2), of h] assms(3)
  by simp

lemma valueIdentical_rowHash:
  "valueIdentical hs r1 r2 \<Longrightarrow> rowHash h hs r1 = rowHash h hs r2"
proof -
  assume "valueIdentical hs r1 r2"
  then have "map (\<lambda>header. getCell r1 header) hs = map (\<lambda>header. getCell r2 header) hs"
    by (simp add: valueIdentical_def)
  then show ?thesis unfolding rowHash_def by (rule arg_cong)
qed

text \<open>
  Claim C6. Every entry of the duplicate list names an original row before the duplicate row;
  the duplicate row is a row of the dataset and the entry carries it; both rows have the
  same fingerprint, and no row before the original has it, so the original is the first row
  of its class. Any two rows that hold the same value under every header are assigned to the
  same class, wherever they stand in the row sequence.
\<close>

theorem duplicates_first_occurrence:
  "(\<forall>e \<in> set (duplicates (findDuplicates h d)).
       originalRow e < duplicateRow e \<and> duplicateRow e < length (rows d)
       \<and> data e = rows d ! duplicateRow e
       \<and> rowHash h (headers d) (rows d ! originalRow e) = rowHash h (headers d) (rows d ! duplicateRow e)
       \<and> (\<forall>k < originalRow e.
             rowHash h (headers d) (rows d ! k) \<noteq> rowHash h (headers d) (rows d ! duplicateRow e)))
   \<and> (\<forall>i j. i < length (rows d) \<and> j < length (rows d)
          \<and> valueIdentical (headers d) (rows d ! i) (rows d ! j)
        \<longrightarrow> classOf (duplicates (findDuplicates h d)) i = classOf (duplicates (findDuplicates h d)) j)"
proof (intro conjI ballI allI impI)
  fix e assume "e \<in> set (duplicates (findDuplicates h d))"
  then obtain k orig where k: "k < length (rows d)"
      "firstIndex (map (rowHash h (headers d)) (rows d)) (rowHash h (headers d) (rows d ! k)) = Some orig"
      "orig < k" "e = \<lparr>originalRow = orig, duplicateRow = k, data = rows d ! k\<rparr>"
    by (auto simp: duplicates_member)
  have fi: "orig < length (rows d)"
      "rowHash h (headers d) (rows d ! orig) = rowHash h (headers d) (rows d ! k)"
      "\<forall>j < orig. rowHash h (headers d) (rows d ! j) \<noteq> rowHash h (headers d) (rows d ! k)"
    using k(1,2,3) by (auto simp: firstIndex_Some)
  show "originalRow e < duplicateRow e" using k by simp
  show "duplicateRow e < length (rows d)" using k by simp
  show "data e = rows d ! duplicateRow e" using k by simp
  show "rowHash h (headers d) (rows d ! originalRow e) = rowHash h (headers d) (rows d ! duplicateRow e)"
    using k fi by simp
  show "rowHash h (headers d) (rows d ! k') \<noteq> rowHash h (headers d) (rows d ! duplicateRow e)"
    if "k' < originalRow e" for k'
    using that k fi by simp
next
  fix i j
  assume a: "i < length (rows d) \<and> j < length (rows d)
          \<and> valueIdentical (headers d) (rows d ! i) (rows d ! j)"
  then show "classOf (duplicates (findDuplicates h d)) i = classOf (duplicates (findDuplicates h d)) j"
    using same_hash_same_class valueIdentical_rowHash by blast
qed

lemma defaultSort_cong:
  assumes m: "mset xs = mset ys"
    and inj: "inj_on (cellToString h) (set xs - {Undefined})"
  shows "defaultSort h xs = defaultSort h ys"
proof -
  have m1: "mset (filter (\<lambda>v. v \<noteq> Undefined) xs) = mset (filter (\<lambda>v. v \<noteq> Undefined) ys)"
    using m by simp
  have m2: "mset (filter (\<lambda>v. v = Undefined) xs) = mset (filter (\<lambda>v. v = Undefined) ys)"
    using m by simp
  have u: "filter (\<lambda>v. v = Undefined) zs = replicate (length (filter (\<lambda>v. v = Undefined) zs)) Undefined" for zs
    by (induction zs) auto
  have "length (filter (\<lambda>v. v = Undefined) xs) = length (filter (\<lambda>v. v = Undefined) ys)"
    using m2 by (metis size_mset)
  then have e2: "filter (\<lambda>v. v = Undefined) xs = filter (\<lambda>v. v = Undefined) ys"
    using u [of xs] u [of ys] by simp
  have s: "set (filter (\<lambda>v. v \<noteq> Undefined) xs) = set xs - {Undefined}" by auto
  have e1: "sort_key (cellToString h) (filter (\<lambda>v. v \<noteq> Undefined) xs)
      = sort_key (cellToString h) (filter (\<lambda>v. v \<noteq> Undefined) ys)"
    by (rule sort_key_inj_key_eq) (use m1 inj s in simp_all)
  show ?thesis by (simp add: defaultSort_def e1 e2)
qed

text \<open>
  Claim C7 (amended). Two rows whose values, projected across the headers, form the same
  multiset receive the same fingerprint and are assigned to the same class, whatever the
  columns the values sit under, provided that no two different values of the row other than
  undefined have the same string (as the number 1 and the text \<open>1\<close> have, or null and the text
  \<open>null\<close>): the sort compares the strings of the values.
\<close>

theorem fingerprint_ignores_columns:
  assumes "i < length (rows d)" "j < length (rows d)"
    and "mset (map (getCell (rows d ! i)) (headers d)) = mset (map (getCell (rows d ! j)) (headers d))"
    and "inj_on (cellToString h) (set (map (getCell (rows d ! i)) (headers d)) - {Undefined})"
  shows "rowHash h (headers d) (rows d ! i) = rowHash h (headers d) (rows d ! j)
    \<and> classOf (duplicates (findDuplicates h d)) i = classOf (duplicates (findDuplicates h d)) j"
proof -
  have eq: "rowHash h (headers d) (rows d ! i) = rowHash h (headers d) (rows d ! j)"
    unfolding rowHash_def using defaultSort_cong [OF assms(3,4)] by simp
  with same_hash_same_class [OF assms(1,2)] show ?thesis by simp
qed

lemma decString_small [simp]:
  "decString 1 = ''1''" "decString 2 = ''2''" "decString 30 = ''30''"
  by (simp_all add: decString_def decNat.simps)

lemmas rowHash_simps =
  rowHash_def getCell_def defaultSort_def JSON_stringify_def quoteJSON_def quoteChar_def decimalHost_def

lemma endToEnd_hashes:
  "rowHash decimalHost [''id'', ''age''] [(''id'', Num (Fin 1)), (''age'', Num (Fin 30))] = ''[1,30]''"
  "rowHash decimalHost [''id'', ''age''] [(''id'', Num (Fin 2)), (''age'', Null)] = ''[2,null]''"
  by (simp_all add: rowHash_simps)

lemma endToEnd_duplicates:
  "duplicates (findDuplicates decimalHost endToEndDataset)
     = [\<lparr>originalRow = 0, duplicateRow = 2, data = [(''id'', Num (Fin 1)), (''age'', Num (Fin 30))]\<rparr>]"
  by (simp add: duplicates_findDuplicates endToEndDataset_def endToEnd_hashes)

theorem duplicates_first_occurrence_witness:
  "duplicates (findDuplicates decimalHost endToEndDataset)
     = [\<lparr>originalRow = 0, duplicateRow = 2, data = [(''id'', Num (Fin 1)), (''age'', Num (Fin 30))]\<rparr>]
   \<and> (0::nat) < length (rows endToEndDataset) \<and> 2 < length (rows endToEndDataset)
   \<and> valueIdentical (headers endToEndDataset) (rows endToEndDataset ! 0) (rows endToEndDataset ! 2)
   \<and> classOf (duplicates (findDuplicates decimalHost endToEndDataset)) 0
       = classOf (duplicates (findDuplicates decimalHost endToEndDataset)) 2"
proof -
  have l: "(0::nat) < length (rows endToEndDataset)" "2 < length (rows endToEndDataset)"
    by (simp_all add: endToEndDataset_def)
  have v: "valueIdentical (headers endToEndDataset) (rows endToEndDataset ! 0) (rows endToEndDataset ! 2)"
    by (simp add: valueIdentical_def endToEndDataset_def)
  from duplicates_first_occurrence [of decimalHost endToEndDataset] l v
  have "classOf (duplicates (findDuplicates decimalHost endToEndDataset)) 0
       = classOf (duplicates (findDuplicates decimalHost endToEndDataset)) 2"
    by blast
  with l v endToEnd_duplicates show ?thesis by simp
qed

lemma swapped_hashes:
  "rowHash decimalHost [''a'', ''b''] [(''a'', Num (Fin 1)), (''b'', Num (Fin 2))] = ''[1,2]''"
  "rowHash decimalHost [''a'', ''b''] [(''a'', Num (Fin 2)), (''b'', Num (Fin 1))] = ''[1,2]''"
  by (simp_all add: rowHash_simps)

theorem fingerprint_ignores_columns_witness:
  "(0::nat) < length (rows swappedDataset) \<and> 1 < length (rows swappedDataset)
   \<and> mset (map (getCell (rows swappedDataset ! 0)) (headers swappedDataset))
       = mset (map (getCell (rows swappedDataset ! 1)) (headers swappedDataset))
   \<and> inj_on (cellToString decimalHost)
        (set (map (getCell (rows swappedDataset ! 0)) (headers swappedDataset)) - {Undefined})
   \<and> rowHash decimalHost (headers swappedDataset) (rows swappedDataset ! 0) = ''[1,2]''
   \<and> rowHash decimalHost (headers swappedDataset) (rows swappedDataset ! 1) = ''[1,2]''
   \<and> classOf (duplicates (findDuplicates decimalHost swappedDataset)) 0
       = classOf (duplicates (findDuplicates decimalHost swappedDataset)) 1"
proof -
  have l: "(0::nat) < length (rows swappedDataset)" "1 < length (rows swappedDataset)"
    by (simp_all add: swappedDataset_def)
  have m: "mset (map (getCell (rows swappedDataset ! 0)) (headers swappedDataset))
       = mset (map (getCell (rows swappedDataset ! 1)) (headers swappedDataset))"
    by (simp add: swappedDataset_def getCell_def)
  have i: "inj_on (cellToString decimalHost)
        (set (map (getCell (rows swappedDataset ! 0)) (headers swappedDataset)) - {Undefined})"
    by (simp add: swappedDataset_def getCell_def decimalHost_def)
  have hs: "rowHash decimalHost (headers swappedDataset) (rows swappedDataset ! 0) = ''[1,2]''"
      "rowHash decimalHost (headers swappedDataset) (rows swappedDataset ! 1) = ''[1,2]''"
    by (simp_all add: swappedDataset_def swapped_hashes)
  from fingerprint_ignores_columns [OF l m i]
  have "classOf (duplicates (findDuplicates decimalHost swappedDataset)) 0
       = classOf (duplicates (findDuplicates decimalHost swappedDataset)) 1"
    by simp
  with l m i hs show ?thesis by simp
qed

lemma sameString_hashes:
  "rowHash decimalHost [''a'', ''b''] [(''a'', Num (Fin 1)), (''b'', Text ''1'')] = [CHR ''['', CHR ''1'', CHR '','', CHR 0x22, CHR ''1'', CHR 0x22, CHR '']'']"
  "rowHash decimalHost [''a'', ''b''] [(''a'', Text ''1''), (''b'', Num (Fin 1))] = [CHR ''['', CHR 0x22, CHR ''1'', CHR 0x22, CHR '','', CHR ''1'', CHR '']'']"
  by (simp_all add: rowHash_simps)

text \<open>
  The rows \<open>{a: 1, b: "1"}\<close> and \<open>{a: "1", b: 1}\<close> hold the same multiset of values. The
  number and the text have the same string, the stable sort leaves each row in column order,
  and the two fingerprints differ: no duplicate is reported.
\<close>

theorem fingerprint_same_string_counterexample:
  "mset (map (getCell (rows sameStringDataset ! 0)) (headers sameStringDataset))
     = mset (map (getCell (rows sameStringDataset ! 1)) (headers sameStringDataset))
   \<and> rowHash decimalHost (headers sameStringDataset) (rows sameStringDataset ! 0)
       \<noteq> rowHash decimalHost (headers sameStringDataset) (rows sameStringDataset ! 1)
   \<and> duplicates (findDuplicates decimalHost sameStringDataset) = []"
  by (simp add: sameStringDataset_def duplicates_findDuplicates sameString_hashes)
     (simp add: getCell_def)

section \<open>The order of the issue list\<close>

lemma obj_entries_plain:
  assumes "\<forall>k \<in> set (map fst ob). arrayIndex k = None"
  shows "obj_entries ob = ob"
proof -
  have a: "filter (\<lambda>p. arrayIndex (fst p) \<noteq> None) ob = []"
    using assms by (auto simp: filter_empty_conv)
  have b: "filter (\<lambda>p. arrayIndex (fst p) = None) ob = ob"
    using assms by (auto simp: filter_id_conv)
  show ?thesis unfolding obj_entries_def a b by simp
qed

lemma alist_recover:
  assumes "distinct (map fst ob)"
  shows "map (\<lambda>k. (k, the (obj_get ob k))) (map fst ob) = ob"
proof -
  have "map_of ob (fst p) = Some (snd p)" if "p \<in> set ob" for p
    using that assms map_of_eq_Some_iff [of ob "fst p" "snd p"] by simp
  then have "map (\<lambda>p. (fst p, the (obj_get ob (fst p)))) ob = ob"
    by (intro map_idI) (simp add: obj_get_def)
  then show ?thesis by (simp add: comp_def)
qed

lemma obj_set_fresh: "k \<notin> set (map fst ob) \<Longrightarrow> obj_set k v ob = ob @ [(k, v)]"
  by (induction ob) auto

lemma foldl_obj_set_distinct:
  "distinct (map fst ob @ ks) \<Longrightarrow>
     foldl (\<lambda>acc k. obj_set k (f k) acc) ob ks = ob @ map (\<lambda>k. (k, f k)) ks"
proof (induction ks arbitrary: ob)
  case Nil
  show ?case by simp
next
  case (Cons k ks)
  have fresh: "k \<notin> set (map fst ob)" using Cons.prems by auto
  have d: "distinct (map fst (ob @ [(k, f k)]) @ ks)" using Cons.prems by auto
  show ?case
    using Cons.IH [OF d] by (simp add: obj_set_fresh [OF fresh])
qed

lemma keys_obj_upd [simp]: "map fst (obj_upd k f ob) = map fst ob"
  by (simp add: obj_upd_def comp_def)

lemma keys_foldl_cellStep [simp]:
  "map fst (fst (foldl (cellStep r i) st hs)) = map fst (fst st)"
  by (induction hs arbitrary: st) (simp_all add: cellStep_def)

lemma keys_missingLoop [simp]:
  "map fst (fst (missingLoop hs rs i m br)) = map fst m"
  by (induction rs arbitrary: i m br) (simp_all add: Let_def)

lemma keys_foldl_upd [simp]:
  "map fst (foldl (\<lambda>m header. obj_upd header (g header) m) m0 hs) = map fst m0"
  by (induction hs arbitrary: m0) simp_all

lemma keys_byColumn:
  "distinct (headers d) \<Longrightarrow> map fst (byColumn (findMissingValues d)) = headers d"
  by (simp add: findMissingValues_def Let_def foldl_obj_set_distinct comp_def)

lemma analyzeDataTypes_distinct:
  "distinct (headers d) \<Longrightarrow>
     analyzeDataTypes h d = map (\<lambda>c. (c, detectDataType h (columnValues d c))) (headers d)"
  by (simp add: analyzeDataTypes_def foldl_obj_set_distinct)

lemma columnStats_distinct:
  "distinct (headers d) \<Longrightarrow>
     columnStats (analyzeDataQuality h d)
       = map (\<lambda>c. (c, columnStatOf h d (findMissingValues d) (analyzeDataTypes h d) c)) (headers d)"
  by (simp add: columnStats_analyze foldl_obj_set_distinct)

lemma foldl_append_steps:
  assumes "\<And>acc p. step acc p = acc @ g p"
  shows "foldl step acc xs = acc @ concat (map g xs)"
  by (induction xs arbitrary: acc) (simp_all add: assms)

lemma issues_analyze:
  "issues (analyzeDataQuality h d) =
     generateIssues h d (findMissingValues d) (findDuplicates h d) (analyzeDataTypes h d)
       (columnStats (analyzeDataQuality h d))"
  by (simp add: analyzeDataQuality_def Let_def)

lemma generateIssues_concat:
  "generateIssues h d mv dr dts cs =
     concat (map (missingIssueStep h []) (obj_entries (byColumn mv)))
     @ (if dupCount dr > 0 then [duplicateIssue h dr] else [])
     @ concat (map (typeIssueStep h []) (obj_entries dts))
     @ concat (map (formatIssueStep h d []) (obj_entries cs))
     @ concat (map (outlierIssueStep h []) (obj_entries cs))"
proof -
  have m: "foldl (missingIssueStep h) acc xs = acc @ concat (map (missingIssueStep h []) xs)" for acc xs
    by (rule foldl_append_steps) (simp add: missingIssueStep_def Let_def)
  have t: "foldl (typeIssueStep h) acc xs = acc @ concat (map (typeIssueStep h []) xs)" for acc xs
    by (rule foldl_append_steps) (simp add: typeIssueStep_def Let_def)
  have f: "foldl (formatIssueStep h d) acc xs = acc @ concat (map (formatIssueStep h d []) xs)" for acc xs
    by (rule foldl_append_steps) (simp add: formatIssueStep_def Let_def)
  have o: "foldl (outlierIssueStep h) acc xs = acc @ concat (map (outlierIssueStep h []) xs)" for acc xs
    by (rule foldl_append_steps) (simp add: outlierIssueStep_def Let_def split: option.splits)
  show ?thesis
    by (simp add: generateIssues_def Let_def m t f o)
qed

lemma missing_section:
  "map issueKey (concat (map (missingIssueStep h []) (map (\<lambda>c. (c, f c)) hs))) =
     [(Missing, Some c,
       if jgt (percentage (f c)) (Fin 50) \<or> jgt (percentage (f c)) (Fin 25) then High
       else if jgt (percentage (f c)) (Fin 10) then Medium else Low).
      c \<leftarrow> hs, mvCount (f c) > 0]"
  by (induction hs) (simp_all add: missingIssueStep_def issueKey_def missingSeverity_def Let_def)

lemma type_section:
  "map issueKey (concat (map (typeIssueStep h []) (map (\<lambda>c. (c, f c)) hs))) =
     [(Inconsistent, Some c, if jlt (confidence (f c)) (Fin 0.75) then High else Medium).
      c \<leftarrow> hs, mixedTypes (f c)]"
  by (induction hs) (simp_all add: typeIssueStep_def issueKey_def Let_def)

lemma format_section:
  "map issueKey (concat (map (formatIssueStep h d []) (map (\<lambda>c. (c, f c)) hs))) =
     [(Format, Some c, Low). c \<leftarrow> hs, type (colType (f c)) = TNumber \<and> mixedFormatting h d c]"
  by (induction hs)
     (auto simp: formatIssueStep_def issueKey_def Let_def filter_empty_conv mixedFormatting_def)

lemma outlier_section:
  "map issueKey (concat (map (outlierIssueStep h []) (map (\<lambda>c. (c, f c)) hs))) =
     [(Outlier, Some c,
       if jgt (outPercentage (the (colOutliers (f c)))) (Fin 5) then High
       else if jgt (outPercentage (the (colOutliers (f c)))) (Fin 2) then Medium else Low).
      c \<leftarrow> hs, (case colOutliers (f c) of None \<Rightarrow> False | Some r \<Rightarrow> outCount r > 0)]"
  by (induction hs)
     (auto simp: outlierIssueStep_def issueKey_def outlierSeverity_def Let_def split: option.splits)

lemma analyze_fields:
  "missingValues (analyzeDataQuality h d) = findMissingValues d"
  "duplicatesReport (analyzeDataQuality h d) = findDuplicates h d"
  "dataTypes (analyzeDataQuality h d) = analyzeDataTypes h d"
  by (simp_all add: analyzeDataQuality_def Let_def)

lemma insort_key_map_pair:
  assumes "\<And>c. fst (F c) = c"
  shows "insort_key (\<lambda>p. g (fst p)) (F x) (map F ys) = map F (insort_key g x ys)"
  by (induction ys) (simp_all add: assms)

lemma sort_key_map_pair:
  assumes "\<And>c. fst (F c) = c"
  shows "sort_key (\<lambda>p. g (fst p)) (map F xs) = map F (sort_key g xs)"
  by (induction xs) (simp_all add: insort_key_map_pair [OF assms])

lemma obj_entries_map:
  assumes "\<And>c. fst (F c) = c"
  shows "obj_entries (map F ks) = map F (propertyOrder ks)"
  unfolding obj_entries_def propertyOrder_def
  by (simp add: filter_map comp_def assms
      sort_key_map_pair [OF assms, where g = "\<lambda>k. the (arrayIndex k)"])

lemma obj_entries_order:
  assumes "distinct (map fst ob)"
  shows "obj_entries ob = map (\<lambda>c. (c, the (obj_get ob c))) (propertyOrder (map fst ob))"
proof -
  have "obj_entries (map (\<lambda>c. (c, the (obj_get ob c))) (map fst ob))
      = map (\<lambda>c. (c, the (obj_get ob c))) (propertyOrder (map fst ob))"
    by (rule obj_entries_map) simp
  then show ?thesis by (simp only: alist_recover [OF assms])
qed

lemma propertyOrder_plain:
  assumes "\<forall>k \<in> set ks. arrayIndex k = None"
  shows "propertyOrder ks = ks"
proof -
  have a: "filter (\<lambda>k. arrayIndex k \<noteq> None) ks = []"
    using assms by (auto simp: filter_empty_conv)
  have b: "filter (\<lambda>k. arrayIndex k = None) ks = ks"
    using assms by (auto simp: filter_id_conv)
  show ?thesis unfolding propertyOrder_def a b by simp
qed

text \<open>
  Claim C8 (amended). The issue list is a function of the dataset. When the headers are
  distinct and plain (none is a key of \<^verbatim>\<open>Object.prototype\<close>, such as \<^verbatim>\<open>__proto__\<close> or
  \<^verbatim>\<open>constructor\<close>), the list is, in this order: one missing-value issue for each header with a
  missing value, of high severity above 50 or above 25 per cent, medium above 10, low
  otherwise; one duplicate issue of high severity when the duplicate count is positive; one
  mixed-type issue for each header whose column has mixed types, high when the confidence is
  below 0.75 and medium otherwise; one formatting issue of low severity for each numeric
  header whose non-empty values are partly symbol-decorated; and one outlier issue for each
  header with outliers, high above 5 per cent, medium above 2, low otherwise. Within each of
  the four groups by column the headers come in the order in which the objects keyed by
  header enumerate them: the headers that are array indices first, in ascending numeric
  order, then the other headers in header order. When no header is an array index this is the
  header order.
\<close>

theorem issues_fixed_sequence:
  assumes "distinct (headers d)" "\<forall>k \<in> set (headers d). plainKey k"
  shows "let A = analyzeDataQuality h d;
             mvOf = (\<lambda>c. the (obj_get (byColumn (missingValues A)) c));
             tyOf = (\<lambda>c. the (obj_get (dataTypes A) c));
             csOf = (\<lambda>c. the (obj_get (columnStats A) c));
             order = propertyOrder (headers d)
         in map issueKey (issues A) =
              [(Missing, Some c,
                if jgt (percentage (mvOf c)) (Fin 50) \<or> jgt (percentage (mvOf c)) (Fin 25) then High
                else if jgt (percentage (mvOf c)) (Fin 10) then Medium else Low).
               c \<leftarrow> order, mvCount (mvOf c) > 0]
            @ (if dupCount (duplicatesReport A) > 0 then [(Duplicate, None, High)] else [])
            @ [(Inconsistent, Some c, if jlt (confidence (tyOf c)) (Fin 0.75) then High else Medium).
               c \<leftarrow> order, mixedTypes (tyOf c)]
            @ [(Format, Some c, Low).
               c \<leftarrow> order, type (colType (csOf c)) = TNumber \<and> mixedFormatting h d c]
            @ [(Outlier, Some c,
                if jgt (outPercentage (the (colOutliers (csOf c)))) (Fin 5) then High
                else if jgt (outPercentage (the (colOutliers (csOf c)))) (Fin 2) then Medium else Low).
               c \<leftarrow> order,
               (case colOutliers (csOf c) of None \<Rightarrow> False | Some r \<Rightarrow> outCount r > 0)]
          \<and> ((\<forall>k \<in> set (headers d). arrayIndex k = None) \<longrightarrow> order = headers d)"
proof -
  let ?A = "analyzeDataQuality h d"
  have k1: "map fst (byColumn (findMissingValues d)) = headers d"
    using assms(1) by (rule keys_byColumn)
  have k2: "map fst (analyzeDataTypes h d) = headers d"
    using assms(1) by (simp add: analyzeDataTypes_distinct comp_def)
  have k3: "map fst (columnStats ?A) = headers d"
    using assms(1) by (simp add: columnStats_distinct comp_def)
  have e1: "obj_entries (byColumn (findMissingValues d))
      = map (\<lambda>c. (c, the (obj_get (byColumn (findMissingValues d)) c))) (propertyOrder (headers d))"
    using obj_entries_order [of "byColumn (findMissingValues d)"] assms(1) by (simp add: k1)
  have e2: "obj_entries (analyzeDataTypes h d)
      = map (\<lambda>c. (c, the (obj_get (analyzeDataTypes h d) c))) (propertyOrder (headers d))"
    using obj_entries_order [of "analyzeDataTypes h d"] assms(1) by (simp add: k2)
  have e3: "obj_entries (columnStats ?A)
      = map (\<lambda>c. (c, the (obj_get (columnStats ?A) c))) (propertyOrder (headers d))"
    using obj_entries_order [of "columnStats ?A"] assms(1) by (simp add: k3)
  show ?thesis
    unfolding Let_def analyze_fields issues_analyze generateIssues_concat e1 e2 e3
    by (simp only: map_append missing_section type_section format_section outlier_section)
       (simp add: issueKey_def duplicateIssue_def propertyOrder_plain)
qed

section \<open>The end-to-end example\<close>

lemma arrayIndex_examples:
  "arrayIndex ''id'' = None" "arrayIndex ''age'' = None" "arrayIndex ''b'' = None"
  "arrayIndex ''1'' = Some 1" "arrayIndex ''a'' = None"
  by (simp_all add: arrayIndex_def isDigit_def decValue_def digitVal_def)

lemma decFixed_third: "decFixed 1 (100 / 3) = ''33.3''"
proof -
  have "\<bar>100 / 3\<bar> * 10 ^ 1 + 1 / 2 = (2003 :: real) / 6" by simp
  then have "nat \<lfloor>\<bar>100 / 3 :: real\<bar> * 10 ^ 1 + 1 / 2\<rfloor> = 333" by simp
  then show ?thesis
    unfolding decFixed_def Let_def by (simp add: decNat.simps)
qed

lemmas missing_simps =
  findMissingValues_def Let_def cellStep_def isMissing_def getCell_def obj_upd_def ofNat_def

lemma endToEnd_byColumn:
  "byColumn (findMissingValues endToEndDataset) =
     [(''id'', \<lparr>mvCount = 0, percentage = Fin 0, positions = []\<rparr>),
      (''age'', \<lparr>mvCount = 1, percentage = Fin (100 / 3), positions = [1]\<rparr>)]"
  by (simp add: endToEndDataset_def missing_simps)

lemma endToEnd_columns:
  "columnValues endToEndDataset ''id'' = [Num (Fin 1), Num (Fin 2), Num (Fin 1)]"
  "columnValues endToEndDataset ''age'' = [Num (Fin 30), Null, Num (Fin 30)]"
  by (simp_all add: columnValues_def endToEndDataset_def getCell_def)

lemma endToEnd_headers: "headers endToEndDataset = [''id'', ''age'']"
  by (simp add: endToEndDataset_def)

lemmas detect_simps =
  detectDataType_def nonNull_def Let_def tallyStep_def isBooleanValue_def isNumberValue_def
  typeEntries_def reduceMax_def ofNat_def

lemma endToEnd_types:
  "analyzeDataTypes h endToEndDataset =
     [(''id'', \<lparr>type = TNumber, confidence = Fin 1, nullable = False, mixedTypes = False\<rparr>),
      (''age'', \<lparr>type = TNumber, confidence = Fin 1, nullable = True, mixedTypes = False\<rparr>)]"
proof -
  have d: "distinct (headers endToEndDataset)" by (simp add: endToEndDataset_def)
  show ?thesis
    unfolding analyzeDataTypes_distinct [OF d]
    by (simp add: endToEnd_headers endToEnd_columns detect_simps)
qed


lemmas stats_simps =
  numericValues_def nonNull_def isNaN_def numericSort_def quartileIndex_def
  less_eq_prod_def less_prod_def

lemma endToEnd_id_outliers:
  "detectOutliers h [Num (Fin 1), Num (Fin 2), Num (Fin 1)] =
     \<lparr>outliers = [], outCount = 0, outPercentage = Fin 0,
      lowerBound = Some (Fin (- 1 / 2)), upperBound = Some (Fin (7 / 2))\<rparr>"
proof -
  obtain st where st: "calculateStatistics h [Num (Fin 1), Num (Fin 2), Num (Fin 1)] = Some st"
      "q1 st = Fin 1" "q3 st = Fin 2"
    using calculateStatistics_Some [of h "[Num (Fin 1), Num (Fin 2), Num (Fin 1)]"]
    by (simp add: stats_simps) blast
  show ?thesis
    unfolding detectOutliers_Some [OF st(1)] st(2,3)
    by (simp add: bound_simps jgt_def isNaN_def ofNat_def)
qed

lemma endToEnd_age_outliers:
  "detectOutliers h [Num (Fin 30), Null, Num (Fin 30)] =
     \<lparr>outliers = [], outCount = 0, outPercentage = Fin 0,
      lowerBound = Some (Fin 30), upperBound = Some (Fin 30)\<rparr>"
proof -
  obtain st where st: "calculateStatistics h [Num (Fin 30), Null, Num (Fin 30)] = Some st"
      "q1 st = Fin 30" "q3 st = Fin 30"
    using calculateStatistics_Some [of h "[Num (Fin 30), Null, Num (Fin 30)]"]
    by (simp add: stats_simps) blast
  show ?thesis
    unfolding detectOutliers_Some [OF st(1)] st(2,3)
    by (simp add: bound_simps jgt_def isNaN_def ofNat_def)
qed

lemma endToEnd_colStats:
  "colType (columnStatOf h endToEndDataset mv
       [(''id'', \<lparr>type = TNumber, confidence = Fin 1, nullable = False, mixedTypes = False\<rparr>),
        (''age'', \<lparr>type = TNumber, confidence = Fin 1, nullable = True, mixedTypes = False\<rparr>)] ''id'')
     = \<lparr>type = TNumber, confidence = Fin 1, nullable = False, mixedTypes = False\<rparr>"
  "colType (columnStatOf h endToEndDataset mv
       [(''id'', \<lparr>type = TNumber, confidence = Fin 1, nullable = False, mixedTypes = False\<rparr>),
        (''age'', \<lparr>type = TNumber, confidence = Fin 1, nullable = True, mixedTypes = False\<rparr>)] ''age'')
     = \<lparr>type = TNumber, confidence = Fin 1, nullable = True, mixedTypes = False\<rparr>"
  "colOutliers (columnStatOf h endToEndDataset mv
       [(''id'', \<lparr>type = TNumber, confidence = Fin 1, nullable = False, mixedTypes = False\<rparr>),
        (''age'', \<lparr>type = TNumber, confidence = Fin 1, nullable = True, mixedTypes = False\<rparr>)] ''id'')
     = Some \<lparr>outliers = [], outCount = 0, outPercentage = Fin 0,
             lowerBound = Some (Fin (- 1 / 2)), upperBound = Some (Fin (7 / 2))\<rparr>"
  "colOutliers (columnStatOf h endToEndDataset mv
       [(''id'', \<lparr>type = TNumber, confidence = Fin 1, nullable = False, mixedTypes = False\<rparr>),
        (''age'', \<lparr>type = TNumber, confidence = Fin 1, nullable = True, mixedTypes = False\<rparr>)] ''age'')
     = Some \<lparr>outliers = [], outCount = 0, outPercentage = Fin 0,
             lowerBound = Some (Fin 30), upperBound = Some (Fin 30)\<rparr>"
  by (simp_all add: columnStatOf_def Let_def obj_get_def endToEnd_columns
      endToEnd_id_outliers endToEnd_age_outliers)

lemma decimalHost_fields:
  "numToString decimalHost = decString" "toNumber decimalHost = decToNumber"
  "parseFloat decimalHost = decParseFloat" "dateValid decimalHost = isoDateValid"
  "toFixed decimalHost = decFixed"
  by (simp_all add: decimalHost_def)

lemma endToEnd_unformatted:
  "mixedFormatting decimalHost endToEndDataset ''id'' = False"
  "mixedFormatting decimalHost endToEndDataset ''age'' = False"
  by (auto simp: mixedFormatting_def endToEnd_columns isFormatted4_def str_includes_def
      decimalHost_fields)

lemma endToEnd_dupReport:
  "dupCount (findDuplicates decimalHost endToEndDataset) = 1"
  "dupPercentage (findDuplicates decimalHost endToEndDataset) = Fin (100 / 3)"
  using endToEnd_duplicates
  by (simp_all add: findDuplicates_def Let_def duplicates_findDuplicates ofNat_def endToEndDataset_def)

lemma formatIssueStep_unmixed:
  "\<not> mixedFormatting h d c \<Longrightarrow> formatIssueStep h d [] (c, cst) = []"
  by (auto simp: formatIssueStep_def mixedFormatting_def Let_def filter_empty_conv)

lemma obj_entries_id_age:
  "obj_entries [(''id'', x), (''age'', y)] = [(''id'', x), (''age'', y)]"
  by (rule obj_entries_plain) (simp add: arrayIndex_examples)

lemma decimalHost_renderings:
  "natToString decimalHost (Suc 0) = ''1''"
  "toFixed decimalHost (Suc 0) (100 / 3) = ''33.3''"
  using decString_small(1) decFixed_third by (simp_all add: natToString_def decimalHost_def)

lemma endToEnd_issues:
  "issues (analyzeDataQuality decimalHost endToEndDataset) =
     [\<lparr>issueType = Missing, severity = High, column = Some ''age'',
       description = ''age has 1 missing values (33.3%)'',
       issueCount = Some 1, issueConfidence = None\<rparr>,
      \<lparr>issueType = Duplicate, severity = High, column = None,
       description = ''Found 1 duplicate rows (33.3%)'',
       issueCount = Some 1, issueConfidence = None\<rparr>]"
proof -
  have d: "distinct (headers endToEndDataset)" by (simp add: endToEnd_headers)
  show ?thesis
    unfolding issues_analyze generateIssues_concat columnStats_distinct [OF d]
      endToEnd_byColumn endToEnd_types endToEnd_headers
    by (simp add: obj_entries_id_age missingIssueStep_def outlierIssueStep_def typeIssueStep_def
        duplicateIssue_def formatIssueStep_unmixed endToEnd_unformatted endToEnd_colStats
        endToEnd_dupReport missingSeverity_def jgt_def decimalHost_renderings Let_def)
qed

text \<open>
  Claim C3 (amended). For the dataset with headers id, age and the rows \<open>{id: 1, age: 30}\<close>,
  \<open>{id: 2, age: null}\<close>, \<open>{id: 1, age: 30}\<close>: the entry of age in the missing-value report has
  count 1 and percentage 100/3, which prints as 33.3 with one decimal; there is one
  duplicate, row 2 of original row 0; and the issue list is the missing-value issue of age,
  of high severity (its percentage is above 25), followed by the duplicate issue, of high
  severity.
\<close>

theorem end_to_end_example:
  "obj_get (byColumn (missingValues (analyzeDataQuality decimalHost endToEndDataset))) ''age''
     = Some \<lparr>mvCount = 1, percentage = Fin (100 / 3), positions = [1]\<rparr>
   \<and> jsnumToFixed decimalHost 1 (Fin (100 / 3)) = ''33.3''
   \<and> dupCount (duplicatesReport (analyzeDataQuality decimalHost endToEndDataset)) = 1
   \<and> duplicates (duplicatesReport (analyzeDataQuality decimalHost endToEndDataset))
       = [\<lparr>originalRow = 0, duplicateRow = 2, data = [(''id'', Num (Fin 1)), (''age'', Num (Fin 30))]\<rparr>]
   \<and> issues (analyzeDataQuality decimalHost endToEndDataset) =
       [\<lparr>issueType = Missing, severity = High, column = Some ''age'',
         description = ''age has 1 missing values (33.3%)'',
         issueCount = Some 1, issueConfidence = None\<rparr>,
        \<lparr>issueType = Duplicate, severity = High, column = None,
         description = ''Found 1 duplicate rows (33.3%)'',
         issueCount = Some 1, issueConfidence = None\<rparr>]"
  using decimalHost_renderings(2)
  by (simp add: analyze_fields endToEnd_byColumn obj_get_def endToEnd_dupReport
      endToEnd_duplicates endToEnd_issues)

text \<open>No issue of the list is a missing-value issue of age with low severity.\<close>

theorem end_to_end_severity_counterexample:
  "\<not> (\<exists>i \<in> set (issues (analyzeDataQuality decimalHost endToEndDataset)).
        issueType i = Missing \<and> column i = Some ''age'' \<and> severity i = Low)"
  by (simp add: endToEnd_issues)

lemma propertyOrder_examples:
  "propertyOrder [''id'', ''age''] = [''id'', ''age'']"
  "propertyOrder [''b'', ''1''] = [''1'', ''b'']"
  by (simp_all add: propertyOrder_def arrayIndex_examples)

lemma plainKey_examples:
  "plainKey ''id''" "plainKey ''age''" "plainKey ''b''" "plainKey ''1''"
  by (simp_all add: plainKey_def objectPrototypeKeys_def)

theorem issues_fixed_sequence_witness:
  "distinct (headers endToEndDataset)
   \<and> plainKey ''id'' \<and> plainKey ''age''
   \<and> arrayIndex ''id'' = None \<and> arrayIndex ''age'' = None
   \<and> headers endToEndDataset = [''id'', ''age'']
   \<and> propertyOrder (headers endToEndDataset) = headers endToEndDataset
   \<and> map issueKey (issues (analyzeDataQuality decimalHost endToEndDataset))
       = [(Missing, Some ''age'', High), (Duplicate, None, High)]"
proof -
  have d: "distinct (headers endToEndDataset)" by (simp add: endToEnd_headers)
  have pk: "\<forall>k \<in> set (headers endToEndDataset). plainKey k"
    by (simp add: endToEnd_headers plainKey_examples)
  from issues_fixed_sequence [OF d pk, of decimalHost]
  have "map issueKey (issues (analyzeDataQuality decimalHost endToEndDataset))
       = [(Missing, Some ''age'', High), (Duplicate, None, High)]"
    by (simp add: Let_def analyze_fields endToEnd_byColumn obj_get_def [of "[_, _]"] endToEnd_headers
        columnStats_get endToEnd_types endToEnd_colStats endToEnd_dupReport jgt_def
        endToEnd_unformatted propertyOrder_examples arrayIndex_examples)
  with d show ?thesis
    by (simp add: arrayIndex_examples endToEnd_headers propertyOrder_examples plainKey_examples)
qed

section \<open>A dataset without rows, and headers that are array indices\<close>

lemma obj_entries_a: "obj_entries [(''a'', x)] = [(''a'', x)]"
  by (rule obj_entries_plain) (simp add: arrayIndex_examples)

lemma headerOnly_missing:
  "findMissingValues headerOnlyDataset =
     \<lparr>byColumn = [(''a'', \<lparr>mvCount = 0, percentage = NaN, positions = []\<rparr>)],
      byRow = [], totalMissing = 0, missingPercentage = NaN, completenessScore = NaN\<rparr>"
  by (simp add: headerOnlyDataset_def findMissingValues_def Let_def obj_upd_def ofNat_def
      obj_values_def obj_entries_a ofSign_def Math_max_def jsub_def)

lemma headerOnly_duplicates:
  "findDuplicates h headerOnlyDataset =
     \<lparr>dupCount = 0, dupPercentage = NaN, duplicates = [], uniquenessScore = NaN\<rparr>"
  by (simp add: headerOnlyDataset_def findDuplicates_def Let_def ofNat_def ofSign_def
      Math_max_def jsub_def cardinalityStep_def columnValues_def)

lemma headerOnly_types:
  "analyzeDataTypes h headerOnlyDataset =
     [(''a'', \<lparr>type = TEmpty, confidence = Fin 1, nullable = True, mixedTypes = False\<rparr>)]"
  by (simp add: headerOnlyDataset_def analyzeDataTypes_def columnValues_def detectDataType_def)

lemma headerOnly_columnStats:
  "columnStats (analyzeDataQuality h headerOnlyDataset) =
     [(''a'', columnStatOf h headerOnlyDataset (findMissingValues headerOnlyDataset)
                (analyzeDataTypes h headerOnlyDataset) ''a'')]"
  by (simp add: columnStats_analyze) (simp add: headerOnlyDataset_def)

lemma headerOnly_colType:
  "type (colType (columnStatOf h headerOnlyDataset mv (analyzeDataTypes h headerOnlyDataset) ''a'')) = TEmpty"
  by (simp add: columnStatOf_def Let_def headerOnly_types obj_get_def)

lemma headerOnly_scores:
  "overallScore (analyzeDataQuality h headerOnlyDataset) = NaN"
  "dimensionScores (analyzeDataQuality h headerOnlyDataset) =
     \<lparr>completeness = NaN, uniqueness = NaN, validity = Fin 100, consistency = Fin 100\<rparr>"
proof -
  have cv: "columnValues headerOnlyDataset c = []" for c
    by (simp add: columnValues_def headerOnlyDataset_def)
  have hd: "headers headerOnlyDataset = [''a'']"
    by (simp add: headerOnlyDataset_def)
  have cs: "foldl (\<lambda>acc header. obj_set header
              (columnStatOf h headerOnlyDataset (findMissingValues headerOnlyDataset)
                 (analyzeDataTypes h headerOnlyDataset) header) acc) [] (headers headerOnlyDataset)
      = [(''a'', columnStatOf h headerOnlyDataset (findMissingValues headerOnlyDataset)
                (analyzeDataTypes h headerOnlyDataset) ''a'')]"
    by (simp add: hd)
  show "overallScore (analyzeDataQuality h headerOnlyDataset) = NaN"
    unfolding analyzeDataQuality_def Let_def cs
    by (simp add: obj_entries_a validityStep_def formatInconsistencyStep_def formatIssuesStep_def
        cv headerOnly_colType headerOnly_missing headerOnly_duplicates hd
        headerOnly_types obj_values_def Math_max_def jsub_def ofNat_def)
  show "dimensionScores (analyzeDataQuality h headerOnlyDataset) =
     \<lparr>completeness = NaN, uniqueness = NaN, validity = Fin 100, consistency = Fin 100\<rparr>"
    unfolding analyzeDataQuality_def Let_def cs
    by (simp add: obj_entries_a validityStep_def formatInconsistencyStep_def formatIssuesStep_def
        cv headerOnly_colType headerOnly_missing headerOnly_duplicates hd
        headerOnly_types obj_values_def Math_max_def jsub_def ofNat_def)
qed

lemma obj_entries_b_1: "obj_entries [(''b'', x), (''1'', y)] = [(''1'', y), (''b'', x)]"
  by (simp add: obj_entries_def arrayIndex_examples)

lemma numericHeader_byColumn:
  "byColumn (findMissingValues numericHeaderDataset) =
     [(''b'', \<lparr>mvCount = 1, percentage = Fin 100, positions = [0]\<rparr>),
      (''1'', \<lparr>mvCount = 1, percentage = Fin 100, positions = [0]\<rparr>)]"
  by (simp add: numericHeaderDataset_def missing_simps)

lemma numericHeader_types:
  "analyzeDataTypes h numericHeaderDataset =
     [(''b'', \<lparr>type = TEmpty, confidence = Fin 1, nullable = True, mixedTypes = False\<rparr>),
      (''1'', \<lparr>type = TEmpty, confidence = Fin 1, nullable = True, mixedTypes = False\<rparr>)]"
  by (simp add: numericHeaderDataset_def analyzeDataTypes_def columnValues_def detectDataType_def
      getCell_def nonNull_def)

lemma numericHeader_duplicates:
  "dupCount (findDuplicates h numericHeaderDataset) = 0"
  by (simp add: findDuplicates_def Let_def numericHeaderDataset_def)

lemma numericHeader_colStats:
  "type (colType (columnStatOf h numericHeaderDataset mv
      [(''b'', \<lparr>type = TEmpty, confidence = Fin 1, nullable = True, mixedTypes = False\<rparr>),
       (''1'', \<lparr>type = TEmpty, confidence = Fin 1, nullable = True, mixedTypes = False\<rparr>)] ''b'')) = TEmpty"
  "type (colType (columnStatOf h numericHeaderDataset mv
      [(''b'', \<lparr>type = TEmpty, confidence = Fin 1, nullable = True, mixedTypes = False\<rparr>),
       (''1'', \<lparr>type = TEmpty, confidence = Fin 1, nullable = True, mixedTypes = False\<rparr>)] ''1'')) = TEmpty"
  "colOutliers (columnStatOf h numericHeaderDataset mv
      [(''b'', \<lparr>type = TEmpty, confidence = Fin 1, nullable = True, mixedTypes = False\<rparr>),
       (''1'', \<lparr>type = TEmpty, confidence = Fin 1, nullable = True, mixedTypes = False\<rparr>)] ''b'') = None"
  "colOutliers (columnStatOf h numericHeaderDataset mv
      [(''b'', \<lparr>type = TEmpty, confidence = Fin 1, nullable = True, mixedTypes = False\<rparr>),
       (''1'', \<lparr>type = TEmpty, confidence = Fin 1, nullable = True, mixedTypes = False\<rparr>)] ''1'') = None"
  by (simp_all add: columnStatOf_def Let_def obj_get_def)

text \<open>
  With the plain headers \<open>b\<close> and \<open>1\<close> and one row that misses both values, the issue of column
  \<open>1\<close> comes before the issue of column \<open>b\<close>: the objects keyed by header enumerate the key
  \<open>1\<close>, an array index, first. The header order is \<open>b\<close>, \<open>1\<close>.
\<close>

theorem issues_numeric_header_counterexample:
  "headers numericHeaderDataset = [''b'', ''1'']
   \<and> plainKey ''b'' \<and> plainKey ''1''
   \<and> map issueKey (issues (analyzeDataQuality decimalHost numericHeaderDataset))
       = [(Missing, Some ''1'', High), (Missing, Some ''b'', High)]"
proof -
  have hd: "headers numericHeaderDataset = [''b'', ''1'']"
    by (simp add: numericHeaderDataset_def)
  have d: "distinct (headers numericHeaderDataset)" by (simp add: hd)
  have "map issueKey (issues (analyzeDataQuality decimalHost numericHeaderDataset))
       = [(Missing, Some ''1'', High), (Missing, Some ''b'', High)]"
    unfolding issues_analyze generateIssues_concat columnStats_distinct [OF d]
      numericHeader_byColumn numericHeader_types hd
    by (simp add: obj_entries_b_1 missingIssueStep_def outlierIssueStep_def typeIssueStep_def
        formatIssueStep_def numericHeader_colStats numericHeader_duplicates
        missingSeverity_def jgt_def issueKey_def Let_def)
  with hd show ?thesis by (simp add: plainKey_examples)
qed

section \<open>Scores and percentages\<close>

lemma ratio_times:
  "n \<noteq> 0 \<Longrightarrow> jmul (jdiv (ofNat a) (ofNat n)) (Fin c) = Fin (real a / real n * c)"
  by (simp add: ofNat_def)

lemma clamp_in_range:
  assumes "b \<le> 100" "0 \<le> x" "0 \<le> y"
  shows "inScoreRange (Math_max (Fin 0) (jsub (jsub (Fin b) (Fin x)) (Fin y)))"
  using assms by (simp add: Math_max_def jsub_def inScoreRange_def)

lemma clamp1_in_range:
  assumes "0 \<le> x"
  shows "inScoreRange (Math_max (Fin 0) (jsub (Fin 100) (Fin x)))"
  using assms by (simp add: Math_max_def jsub_def inScoreRange_def)

lemma completeness_in_range:
  assumes "headers d \<noteq> []" "rows d \<noteq> []"
  shows "inScoreRange (completenessScore (findMissingValues d))"
proof -
  have n: "length (headers d) * length (rows d) \<noteq> 0" "length (headers d) \<noteq> 0"
    using assms by simp_all
  show ?thesis
    unfolding findMissingValues_def Let_def
    by (simp add: ratio_times [OF n(1)] ratio_times [OF n(2)] clamp_in_range)
qed

lemma cardinalityStep_finite:
  "0 \<le> p \<Longrightarrow> \<exists>q. cardinalityStep d (Fin p) header = Fin q \<and> 0 \<le> q"
  by (auto simp: cardinalityStep_def Let_def ofNat_def jsub_def)

lemma cardinality_penalty_finite:
  "0 \<le> p \<Longrightarrow> \<exists>q. foldl (cardinalityStep d) (Fin p) hs = Fin q \<and> 0 \<le> q"
proof (induction hs arbitrary: p)
  case Nil
  then show ?case by simp
next
  case (Cons a hs)
  obtain q where q: "cardinalityStep d (Fin p) a = Fin q" "0 \<le> q"
    using cardinalityStep_finite [OF Cons.prems] by blast
  show ?case using Cons.IH [OF q(2)] q(1) by simp
qed

lemma uniqueness_in_range:
  assumes "rows d \<noteq> []"
  shows "inScoreRange (uniquenessScore (findDuplicates h d))"
proof -
  have n: "length (rows d) \<noteq> 0" using assms by simp
  obtain q where q: "foldl (cardinalityStep d) (Fin 0) (headers d) = Fin q" "0 \<le> q"
    using cardinality_penalty_finite [of 0] by blast
  show ?thesis
    unfolding findDuplicates_def Let_def
    by (simp add: ratio_times [OF n] q clamp_in_range)
qed

lemma analyze_scores:
  "completeness (dimensionScores (analyzeDataQuality h d)) = completenessScore (findMissingValues d)"
  "uniqueness (dimensionScores (analyzeDataQuality h d)) = uniquenessScore (findDuplicates h d)"
  "\<exists>v. validity (dimensionScores (analyzeDataQuality h d))
         = Math_max (Fin 0) (jsub (Fin 100) (ofNat v))"
  "\<exists>m f. consistency (dimensionScores (analyzeDataQuality h d))
         = Math_max (Fin 0) (jsub (jsub (Fin 100)
             (jmul (jdiv (ofNat m) (ofNat (length (headers d)))) (Fin 100))) (ofNat f))"
  "\<exists>c g. overallScore (analyzeDataQuality h d)
         = Math_max (Fin 0) (jsub (jsub
             (jadd (jadd (jadd (jmul (completeness (dimensionScores (analyzeDataQuality h d))) (Fin 0.40))
                               (jmul (uniqueness (dimensionScores (analyzeDataQuality h d))) (Fin 0.30)))
                         (jmul (validity (dimensionScores (analyzeDataQuality h d))) (Fin 0.20)))
                   (jmul (consistency (dimensionScores (analyzeDataQuality h d))) (Fin 0.10)))
             (jmul (jdiv (ofNat c) (ofNat (length (headers d)))) (Fin 20))) (ofNat g))"
  by (simp_all add: analyzeDataQuality_def Let_def) blast+

lemma inScoreRange_Fin: "inScoreRange x \<Longrightarrow> \<exists>r. x = Fin r \<and> 0 \<le> r \<and> r \<le> 100"
  by (cases x) (simp_all add: inScoreRange_def)

text \<open>
  Claim C1 (amended). For every dataset with at least one header and at least one row, the
  overall score and the four dimension scores (completeness, uniqueness, validity,
  consistency) returned by analyzeDataQuality are numbers between 0 and 100.
\<close>

theorem scores_in_range:
  assumes "headers d \<noteq> []" "rows d \<noteq> []"
  shows "inScoreRange (overallScore (analyzeDataQuality h d))
    \<and> inScoreRange (completeness (dimensionScores (analyzeDataQuality h d)))
    \<and> inScoreRange (uniqueness (dimensionScores (analyzeDataQuality h d)))
    \<and> inScoreRange (validity (dimensionScores (analyzeDataQuality h d)))
    \<and> inScoreRange (consistency (dimensionScores (analyzeDataQuality h d)))"
proof -
  let ?A = "analyzeDataQuality h d"
  have n: "length (headers d) \<noteq> 0" using assms by simp
  have c: "inScoreRange (completeness (dimensionScores ?A))"
    using completeness_in_range [OF assms] by (simp add: analyze_scores)
  have u: "inScoreRange (uniqueness (dimensionScores ?A))"
    using uniqueness_in_range [OF assms(2)] by (simp add: analyze_scores)
  have v: "inScoreRange (validity (dimensionScores ?A))"
    using analyze_scores(3) [of h d] by (auto simp: ofNat_def clamp1_in_range)
  have s: "inScoreRange (consistency (dimensionScores ?A))"
  proof -
    obtain m f where e: "consistency (dimensionScores ?A)
         = Math_max (Fin 0) (jsub (jsub (Fin 100)
             (jmul (jdiv (ofNat m) (ofNat (length (headers d)))) (Fin 100))) (ofNat f))"
      using analyze_scores(4) [of h d] by blast
    show ?thesis
      unfolding e ratio_times [OF n] by (simp add: ofNat_def clamp_in_range)
  qed
  obtain rc ru rv rs where r:
      "completeness (dimensionScores ?A) = Fin rc" "0 \<le> rc" "rc \<le> 100"
      "uniqueness (dimensionScores ?A) = Fin ru" "0 \<le> ru" "ru \<le> 100"
      "validity (dimensionScores ?A) = Fin rv" "0 \<le> rv" "rv \<le> 100"
      "consistency (dimensionScores ?A) = Fin rs" "0 \<le> rs" "rs \<le> 100"
    using c u v s by (metis inScoreRange_Fin)
  have b: "rc * 0.40 + ru * 0.30 + rv * 0.20 + rs * 0.10 \<le> 100"
    using r by simp
  obtain cm g where o: "overallScore ?A
         = Math_max (Fin 0) (jsub (jsub
             (jadd (jadd (jadd (jmul (Fin rc) (Fin 0.40)) (jmul (Fin ru) (Fin 0.30)))
                         (jmul (Fin rv) (Fin 0.20)))
                   (jmul (Fin rs) (Fin 0.10)))
             (jmul (jdiv (ofNat cm) (ofNat (length (headers d)))) (Fin 20))) (ofNat g))"
    using analyze_scores(5) [of h d] unfolding r by blast
  have "inScoreRange (overallScore ?A)"
    unfolding o ratio_times [OF n] using b
    by (simp add: ofNat_def clamp_in_range)
  with c u v s show ?thesis by simp
qed


lemma endToEnd_nonempty: "headers endToEndDataset \<noteq> []" "rows endToEndDataset \<noteq> []"
  by (simp_all add: endToEndDataset_def)

theorem scores_in_range_witness:
  "headers endToEndDataset \<noteq> [] \<and> rows endToEndDataset \<noteq> []
   \<and> inScoreRange (overallScore (analyzeDataQuality decimalHost endToEndDataset))
   \<and> inScoreRange (completeness (dimensionScores (analyzeDataQuality decimalHost endToEndDataset)))
   \<and> inScoreRange (uniqueness (dimensionScores (analyzeDataQuality decimalHost endToEndDataset)))
   \<and> inScoreRange (validity (dimensionScores (analyzeDataQuality decimalHost endToEndDataset)))
   \<and> inScoreRange (consistency (dimensionScores (analyzeDataQuality decimalHost endToEndDataset)))"
  using scores_in_range [OF endToEnd_nonempty, of decimalHost] endToEnd_nonempty by simp

text \<open>
  On the dataset with the header \<open>a\<close> and no row the completeness score, the uniqueness score
  and the overall score are NaN: the missing and duplicate percentages divide zero by zero.
\<close>

theorem scores_zero_rows_counterexample:
  "rows headerOnlyDataset = []
   \<and> completeness (dimensionScores (analyzeDataQuality decimalHost headerOnlyDataset)) = NaN
   \<and> uniqueness (dimensionScores (analyzeDataQuality decimalHost headerOnlyDataset)) = NaN
   \<and> overallScore (analyzeDataQuality decimalHost headerOnlyDataset) = NaN
   \<and> \<not> inScoreRange (completeness (dimensionScores (analyzeDataQuality decimalHost headerOnlyDataset)))
   \<and> \<not> inScoreRange (uniqueness (dimensionScores (analyzeDataQuality decimalHost headerOnlyDataset)))
   \<and> \<not> inScoreRange (overallScore (analyzeDataQuality decimalHost headerOnlyDataset))"
proof -
  have r: "rows headerOnlyDataset = []" by (simp add: headerOnlyDataset_def)
  show ?thesis using r by (simp add: headerOnly_scores inScoreRange_def)
qed

lemma keys_obj_set: "fst ` set (obj_set k v ob) = insert k (fst ` set ob)"
  by (induction ob) auto

lemma keys_foldl_set:
  "fst ` set (foldl (\<lambda>acc k. obj_set k (f k) acc) ob ks) = fst ` set ob \<union> set ks"
  by (induction ks arbitrary: ob) (simp_all add: keys_obj_set)

lemma values_obj_set:
  assumes "\<forall>p \<in> set ob. snd p = f (fst p)"
  shows "\<forall>p \<in> set (obj_set k (f k) ob). snd p = f (fst p)"
  using assms by (induction ob) auto

lemma values_foldl_set:
  assumes "\<forall>p \<in> set ob. snd p = f (fst p)"
  shows "\<forall>p \<in> set (foldl (\<lambda>acc k. obj_set k (f k) acc) ob ks). snd p = f (fst p)"
  using assms
proof (induction ks arbitrary: ob)
  case Nil
  then show ?case by simp
next
  case (Cons k ks)
  show ?case using Cons.IH [OF values_obj_set [OF Cons.prems, of k]] by simp
qed

lemma foldl_upd_touched:
  assumes "\<And>e. P (g e)"
    and "\<forall>q \<in> set m. fst q \<in> S \<longrightarrow> P (snd q)"
  shows "\<forall>q \<in> set (foldl (\<lambda>m header. obj_upd header g m) m hs). fst q \<in> S \<union> set hs \<longrightarrow> P (snd q)"
  using assms(2)
proof (induction hs arbitrary: m S)
  case Nil
  then show ?case by simp
next
  case (Cons a hs)
  have "\<forall>q \<in> set (obj_upd a g m). fst q \<in> insert a S \<longrightarrow> P (snd q)"
    using Cons.prems assms(1) by (auto simp: obj_upd_def)
  from Cons.IH [OF this] show ?case by simp
qed

lemma byColumn_keys:
  "fst ` set (byColumn (findMissingValues d)) = set (headers d)"
proof -
  have "set (map fst (byColumn (findMissingValues d)))
      = set (map fst (foldl (\<lambda>m header. obj_set header \<lparr>mvCount = 0, percentage = Fin 0, positions = []\<rparr> m)
                       [] (headers d)))"
    unfolding findMissingValues_def Let_def
    by (simp only: missingReport.simps keys_foldl_upd keys_missingLoop)
  then show ?thesis by (simp add: keys_foldl_set)
qed

lemma byColumn_percentages:
  assumes "rows d \<noteq> []"
  shows "\<forall>p \<in> set (byColumn (findMissingValues d)). isFiniteNumber (percentage (snd p))"
proof -
  let ?g = "\<lambda>e. e\<lparr>percentage := jmul (jdiv (ofNat (mvCount e)) (ofNat (length (rows d)))) (Fin 100)\<rparr>"
  let ?m0 = "foldl (\<lambda>m header. obj_set header \<lparr>mvCount = 0, percentage = Fin 0, positions = []\<rparr> m) [] (headers d)"
  let ?m1 = "fst (missingLoop (headers d) (rows d) 0 ?m0 [])"
  have n: "length (rows d) \<noteq> 0" using assms by simp
  have bc: "byColumn (findMissingValues d) = foldl (\<lambda>m header. obj_upd header ?g m) ?m1 (headers d)"
    by (simp add: findMissingValues_def Let_def)
  have "\<forall>q \<in> set (foldl (\<lambda>m header. obj_upd header ?g m) ?m1 (headers d)).
          fst q \<in> {} \<union> set (headers d) \<longrightarrow> isFiniteNumber (percentage (snd q))"
    by (rule foldl_upd_touched [where P = "\<lambda>e. isFiniteNumber (percentage e)"])
       (simp_all add: ratio_times [OF n] isFiniteNumber_def)
  then show ?thesis
    using byColumn_keys [of d] unfolding bc by auto
qed

lemma missingLoop_rows:
  assumes "\<forall>r \<in> set br. isFiniteNumber (rowPercentage r)" "hs \<noteq> []"
  shows "\<forall>r \<in> set (snd (missingLoop hs rs i m br)). isFiniteNumber (rowPercentage r)"
  using assms(1)
proof (induction rs arbitrary: i m br)
  case Nil
  then show ?case by simp
next
  case (Cons r rs)
  have n: "length hs \<noteq> 0" using assms(2) by simp
  show ?case
    by (simp add: Let_def) (intro conjI impI Cons.IH; use Cons.prems in \<open>simp add: ratio_times [OF n] isFiniteNumber_def\<close>)
qed

lemma byRow_percentages:
  assumes "headers d \<noteq> []"
  shows "\<forall>r \<in> set (byRow (findMissingValues d)). isFiniteNumber (rowPercentage r)"
  unfolding findMissingValues_def Let_def
  using missingLoop_rows [OF _ assms, of "[]"] by simp

lemma overall_percentages:
  assumes "headers d \<noteq> []" "rows d \<noteq> []"
  shows "isFiniteNumber (missingPercentage (findMissingValues d))"
    and "isFiniteNumber (dupPercentage (findDuplicates h d))"
proof -
  have n: "length (headers d) * length (rows d) \<noteq> 0" "length (rows d) \<noteq> 0"
    using assms by simp_all
  show "isFiniteNumber (missingPercentage (findMissingValues d))"
    by (simp add: findMissingValues_def Let_def ratio_times [OF n(1)] isFiniteNumber_def)
  show "isFiniteNumber (dupPercentage (findDuplicates h d))"
    by (simp add: findDuplicates_def Let_def ratio_times [OF n(2)] isFiniteNumber_def)
qed

lemma outPercentage_finite: "isFiniteNumber (outPercentage (detectOutliers h vals))"
proof (cases "calculateStatistics h vals")
  case None
  then show ?thesis by (simp add: detectOutliers_def isFiniteNumber_def)
next
  case (Some st)
  then have "vals \<noteq> []"
    by (auto simp: calculateStatistics_def numericValues_def split: if_splits)
  then have n: "length vals \<noteq> 0" by simp
  show ?thesis
    unfolding detectOutliers_Some [OF Some]
    by (simp add: ratio_times [OF n] isFiniteNumber_def)
qed

lemma columnStats_entries:
  "\<forall>p \<in> set (columnStats (analyzeDataQuality h d)).
      snd p = columnStatOf h d (findMissingValues d) (analyzeDataTypes h d) (fst p)"
  unfolding columnStats_analyze by (rule values_foldl_set) simp

section \<open>Completion of the engine\<close>

lemma andThen_Returns [simp]: "andThen (Returns x) f = f x"
  by (simp add: andThen_def)

lemma mapRun_Returns:
  "(\<And>x. x \<in> set xs \<Longrightarrow> f x = Returns (g x)) \<Longrightarrow> mapRun f xs = Returns (map g xs)"
  by (induction xs) simp_all

lemma filterRun_Returns:
  "(\<And>x. x \<in> set xs \<Longrightarrow> f x = Returns (P x)) \<Longrightarrow> filterRun f xs = Returns (filter P xs)"
  by (induction xs) simp_all

lemma foldlRun_Returns:
  "(\<And>s x. x \<in> set xs \<Longrightarrow> f s x = Returns (g s x)) \<Longrightarrow> foldlRun f s xs = Returns (foldl g s xs)"
  by (induction xs arbitrary: s) simp_all

lemma foldlRun_invariant:
  assumes "I s"
    and "\<And>s x. I s \<Longrightarrow> x \<in> set xs \<Longrightarrow> f s x = Returns (g s x) \<and> I (g s x)"
  shows "foldlRun f s xs = Returns (foldl g s xs)"
  using assms
proof (induction xs arbitrary: s)
  case Nil
  show ?case by simp
next
  case (Cons a xs)
  have step: "f s a = Returns (g s a)" "I (g s a)"
    using Cons.prems(2) [OF Cons.prems(1), of a] by simp_all
  have "foldlRun f (g s a) xs = Returns (foldl g (g s a) xs)"
    by (rule Cons.IH [OF step(2)]) (use Cons.prems(2) in simp)
  then show ?case by (simp add: step(1))
qed

text \<open>
  The filters of the engine matter: on a column that holds null, the format test of the
  validity score throws when it is applied to all the values, and returns when it is applied
  to the values that the filter keeps.
\<close>

lemma toString_needs_filter:
  "mapRun (\<lambda>v. andThen (toStringMethod h v) (\<lambda>str. Returns (formatOf str))) [Text ''ab'', Null]
     = Throws TypeError"
  "mapRun (\<lambda>v. andThen (toStringMethod h v) (\<lambda>str. Returns (formatOf str)))
       (filter nonNull [Text ''ab'', Null])
     = Returns [FLowercase]"
  by (simp_all add: andThen_def nonNull_def formatOf_def isDigit_def isLower_def)

lemma toStringMethod_value:
  "v \<noteq> Null \<Longrightarrow> v \<noteq> Undefined \<Longrightarrow> toStringMethod h v = Returns (cellToString h v)"
  by (cases v) simp_all

lemma truthy_value: "truthy v \<Longrightarrow> v \<noteq> Null \<and> v \<noteq> Undefined"
  by (cases v) simp_all

lemma nonNull_value: "nonNull v \<Longrightarrow> v \<noteq> Null \<and> v \<noteq> Undefined"
  by (simp add: nonNull_def)

lemma entryOf_key: "k \<in> fst ` set ob \<Longrightarrow> entryOf ob k = Returns (the (obj_get ob k))"
  by (cases "map_of ob k") (auto simp: entryOf_def obj_get_def map_of_eq_None_iff)

lemma isBooleanValueRun_value: "isBooleanValueRun v = Returns (isBooleanValue v)"
  by (cases v) (simp_all add: isBooleanValueRun_def isBooleanValue_def)

lemma tallyStepRun_value: "tallyStepRun h t v = Returns (tallyStep h t v)"
  by (simp add: tallyStepRun_def tallyStep_def isBooleanValueRun_value)

lemma reduceMaxRun_entries: "reduceMaxRun (typeEntries t n) = Returns (reduceMax (typeEntries t n))"
  by (simp add: reduceMaxRun_def reduceMax_def typeEntries_def)

lemma detectDataTypeRun_value: "detectDataTypeRun h vals = Returns (detectDataType h vals)"
proof -
  have f: "foldlRun (tallyStepRun h) t vs = Returns (foldl (tallyStep h) t vs)" for t vs
    by (rule foldlRun_Returns) (rule tallyStepRun_value)
  show ?thesis
    by (simp add: detectDataTypeRun_def detectDataType_def Let_def f reduceMaxRun_entries)
qed

lemma isMissingRun_value: "isMissingRun v = Returns (isMissing v)"
  by (cases v) (simp_all add: isMissingRun_def isMissing_def)

lemma cellStepRun_value:
  assumes "header \<in> fst ` set (fst st)"
  shows "cellStepRun r i st header = Returns (cellStep r i st header)"
  by (simp add: cellStepRun_def cellStep_def isMissingRun_value entryOf_key [OF assms])

lemma keys_cellStep: "map fst (fst (cellStep r i st header)) = map fst (fst st)"
  by (simp add: cellStep_def)

lemma foldl_cellStepRun_value:
  assumes "set hs \<subseteq> fst ` set (fst st)"
  shows "foldlRun (cellStepRun r i) st hs = Returns (foldl (cellStep r i) st hs)"
proof (rule foldlRun_invariant [where I = "\<lambda>s. set hs \<subseteq> fst ` set (fst s)"])
  show "set hs \<subseteq> fst ` set (fst st)" by (rule assms)
next
  fix s :: "missingInfo obj \<times> nat" and x
  assume i: "set hs \<subseteq> fst ` set (fst s)" and x: "x \<in> set hs"
  have k: "fst ` set (fst (cellStep r i s x)) = fst ` set (fst s)"
    using keys_cellStep [of r i s x] by (metis set_map)
  show "cellStepRun r i s x = Returns (cellStep r i s x) \<and> set hs \<subseteq> fst ` set (fst (cellStep r i s x))"
    using i x cellStepRun_value [of x s r i] unfolding k by auto
qed

lemma missingLoopRun_value:
  assumes "set hs \<subseteq> fst ` set m"
  shows "missingLoopRun hs rs i m br = Returns (missingLoop hs rs i m br)"
  using assms
proof (induction rs arbitrary: i m br)
  case Nil
  show ?case by simp
next
  case (Cons r rs)
  have f: "foldlRun (cellStepRun r i) (m, 0) hs = Returns (foldl (cellStep r i) (m, 0) hs)"
    by (rule foldl_cellStepRun_value) (use Cons.prems in simp)
  have k: "fst ` set (fst (foldl (cellStep r i) (m, 0) hs)) = fst ` set m"
    using keys_foldl_cellStep [of r i "(m, 0)" hs] by (metis set_map fst_conv)
  have ih: "missingLoopRun hs rs (Suc i) (fst (foldl (cellStep r i) (m, 0) hs)) br'
      = Returns (missingLoop hs rs (Suc i) (fst (foldl (cellStep r i) (m, 0) hs)) br')" for br'
    by (rule Cons.IH) (use Cons.prems k in simp)
  show ?case
    by (simp add: f Let_def ih)
qed

lemma percentageStepRun_value:
  assumes "header \<in> fst ` set m"
  shows "percentageStepRun n m header
     = Returns (obj_upd header (\<lambda>e. e\<lparr>percentage := jmul (jdiv (ofNat (mvCount e)) (ofNat n)) (Fin 100)\<rparr>) m)"
  by (simp add: percentageStepRun_def entryOf_key [OF assms])

lemma foldl_percentageStepRun_value:
  assumes "set hs \<subseteq> fst ` set m"
  shows "foldlRun (percentageStepRun n) m hs
     = Returns (foldl (\<lambda>m header. obj_upd header
                  (\<lambda>e. e\<lparr>percentage := jmul (jdiv (ofNat (mvCount e)) (ofNat n)) (Fin 100)\<rparr>) m) m hs)"
proof (rule foldlRun_invariant [where I = "\<lambda>s. set hs \<subseteq> fst ` set s"])
  show "set hs \<subseteq> fst ` set m" by (rule assms)
next
  fix s :: "missingInfo obj" and x
  assume i: "set hs \<subseteq> fst ` set s" and x: "x \<in> set hs"
  let ?s' = "obj_upd x (\<lambda>e. e\<lparr>percentage := jmul (jdiv (ofNat (mvCount e)) (ofNat n)) (Fin 100)\<rparr>) s"
  have k: "fst ` set ?s' = fst ` set s"
    using keys_obj_upd [of x _ s] by (metis set_map)
  show "percentageStepRun n s x = Returns ?s' \<and> set hs \<subseteq> fst ` set ?s'"
    using i x percentageStepRun_value [of x s n] unfolding k by auto
qed

lemma findMissingValuesRun_value: "findMissingValuesRun d = Returns (findMissingValues d)"
proof -
  let ?m0 = "foldl (\<lambda>m header. obj_set header \<lparr>mvCount = 0, percentage = Fin 0, positions = []\<rparr> m)
               [] (headers d)"
  have k0: "fst ` set ?m0 = set (headers d)"
    by (simp add: keys_foldl_set)
  have l: "missingLoopRun (headers d) (rows d) 0 ?m0 [] = Returns (missingLoop (headers d) (rows d) 0 ?m0 [])"
    by (rule missingLoopRun_value) (simp add: k0)
  have k1: "fst ` set (fst (missingLoop (headers d) (rows d) 0 ?m0 [])) = set (headers d)"
    using keys_missingLoop [of "headers d" "rows d" 0 ?m0 "[]"] k0 by (metis set_map)
  have p: "foldlRun (percentageStepRun (length (rows d))) (fst (missingLoop (headers d) (rows d) 0 ?m0 [])) (headers d)
     = Returns (foldl (\<lambda>m header. obj_upd header
                  (\<lambda>e. e\<lparr>percentage := jmul (jdiv (ofNat (mvCount e)) (ofNat (length (rows d)))) (Fin 100)\<rparr>) m)
                (fst (missingLoop (headers d) (rows d) 0 ?m0 [])) (headers d))"
    by (rule foldl_percentageStepRun_value) (simp add: k1)
  show ?thesis
    unfolding findMissingValuesRun_def findMissingValues_def Let_def l andThen_Returns p ..
qed

lemma analyzeDataTypesRun_value: "analyzeDataTypesRun h d = Returns (analyzeDataTypes h d)"
  unfolding analyzeDataTypesRun_def analyzeDataTypes_def
  by (rule foldlRun_Returns) (simp add: detectDataTypeRun_value)

lemma columnStatOfRun_value:
  assumes "header \<in> set (headers d)"
  shows "columnStatOfRun h d mv (analyzeDataTypes h d) header
     = Returns (columnStatOf h d mv (analyzeDataTypes h d) header)"
proof -
  have "fst ` set (analyzeDataTypes h d) = set (headers d)"
    by (simp add: analyzeDataTypes_def keys_foldl_set)
  then have "header \<in> fst ` set (analyzeDataTypes h d)" using assms by simp
  from entryOf_key [OF this] show ?thesis
    by (simp add: columnStatOfRun_def columnStatOf_def Let_def)
qed

lemma columnStatsRun_value:
  "foldlRun (\<lambda>acc header.
       andThen (columnStatOfRun h d mv (analyzeDataTypes h d) header) (\<lambda>columnStat.
         Returns (obj_set header columnStat acc))) [] (headers d)
     = Returns (foldl (\<lambda>acc header. obj_set header (columnStatOf h d mv (analyzeDataTypes h d) header) acc)
                  [] (headers d))"
  by (rule foldlRun_Returns) (simp add: columnStatOfRun_value)

lemma formats_value:
  "mapRun (\<lambda>v. andThen (toStringMethod h v) (\<lambda>str. Returns (formatOf str))) (filter nonNull vals)
     = Returns (map (\<lambda>v. formatOf (cellToString h v)) (filter nonNull vals))"
  by (rule mapRun_Returns) (simp add: toStringMethod_value nonNull_value)

lemma validityStepRun_value: "validityStepRun h d n p = Returns (validityStep h d n p)"
  by (simp add: validityStepRun_def validityStep_def Let_def formats_value)

lemma hasSymbolRun_value: "truthy v \<Longrightarrow> hasSymbolRun h v = Returns (hasSymbol h v)"
  by (simp add: hasSymbolRun_def hasSymbol_def toStringMethod_value truthy_value)

lemma formatInconsistencyStepRun_value:
  "formatInconsistencyStepRun h d n p = Returns (formatInconsistencyStep h d n p)"
proof -
  have "filterRun (hasSymbolRun h) (filter truthy vals) = Returns (filter (hasSymbol h) (filter truthy vals))"
    for vals
    by (rule filterRun_Returns) (simp add: hasSymbolRun_value)
  then show ?thesis
    by (simp add: formatInconsistencyStepRun_def formatInconsistencyStep_def Let_def)
qed

lemma isFormatted3Run_value: "isFormatted3Run h v = Returns (isFormatted3 h v)"
  by (simp add: isFormatted3Run_def isFormatted3_def toStringMethod_value truthy_value)

lemma formatIssuesStepRun_value:
  "formatIssuesStepRun h d n p = Returns (formatIssuesStep h d n p)"
proof -
  have "filterRun (isFormatted3Run h) vals = Returns (filter (isFormatted3 h) vals)" for vals
    by (rule filterRun_Returns) (rule isFormatted3Run_value)
  then show ?thesis
    by (simp add: formatIssuesStepRun_def formatIssuesStep_def Let_def)
qed

lemma isFormatted4Run_value: "truthy v \<Longrightarrow> isFormatted4Run h v = Returns (isFormatted4 h v)"
  by (simp add: isFormatted4Run_def isFormatted4_def toStringMethod_value truthy_value)

lemma formatIssueStepRun_value:
  "formatIssueStepRun h d acc p = Returns (formatIssueStep h d acc p)"
proof -
  have a: "filterRun (isFormatted4Run h) (filter truthy vals)
      = Returns (filter (isFormatted4 h) (filter truthy vals))" for vals
    by (rule filterRun_Returns) (simp add: isFormatted4Run_value)
  have b: "filterRun (\<lambda>v. andThen (isFormatted4Run h v) (\<lambda>formatted. Returns (\<not> formatted))) (filter truthy vals)
      = Returns (filter (\<lambda>v. \<not> isFormatted4 h v) (filter truthy vals))" for vals
    by (rule filterRun_Returns) (simp add: isFormatted4Run_value)
  show ?thesis
    by (simp add: formatIssueStepRun_def formatIssueStep_def Let_def a b)
qed

lemma generateIssuesRun_value:
  "generateIssuesRun h d mv dr dts cs = Returns (generateIssues h d mv dr dts cs)"
proof -
  have "foldlRun (formatIssueStepRun h d) acc xs = Returns (foldl (formatIssueStep h d) acc xs)" for acc xs
    by (rule foldlRun_Returns) (rule formatIssueStepRun_value)
  then show ?thesis
    by (simp add: generateIssuesRun_def generateIssues_def Let_def)
qed

lemma analyzeDataQualityRun_value:
  "analyzeDataQualityRun h d = Returns (analyzeDataQuality h d)"
proof -
  have v: "foldlRun (validityStepRun h d) n xs = Returns (foldl (validityStep h d) n xs)" for n xs
    by (rule foldlRun_Returns) (rule validityStepRun_value)
  have f: "foldlRun (formatInconsistencyStepRun h d) n xs = Returns (foldl (formatInconsistencyStep h d) n xs)" for n xs
    by (rule foldlRun_Returns) (rule formatInconsistencyStepRun_value)
  have g: "foldlRun (formatIssuesStepRun h d) n xs = Returns (foldl (formatIssuesStep h d) n xs)" for n xs
    by (rule foldlRun_Returns) (rule formatIssuesStepRun_value)
  show ?thesis
    unfolding analyzeDataQualityRun_def analyzeDataQuality_def Let_def
      findMissingValuesRun_value analyzeDataTypesRun_value andThen_Returns columnStatsRun_value
      v f g generateIssuesRun_value ..
qed

text \<open>
  Claim C2 (amended). For every dataset, whatever its cells (columns that miss every value,
  numeric columns without a numeric value, rows without the keys of the headers, and no row
  at all included), the engine returns: no operation of analyzeDataQuality and of the
  functions it calls throws. When the dataset has at least one header and at least one row,
  every percentage of the returned analysis is a finite number: the missing percentage of
  each column, of each reported row and of the whole dataset, the duplicate percentage, and
  the outlier percentage of each column that has an outlier report.
\<close>

theorem percentages_defined:
  "\<exists>A. analyzeDataQualityRun h d = Returns A
     \<and> (headers d \<noteq> [] \<and> rows d \<noteq> [] \<longrightarrow>
          (\<forall>p \<in> set (byColumn (missingValues A)). isFiniteNumber (percentage (snd p)))
          \<and> (\<forall>r \<in> set (byRow (missingValues A)). isFiniteNumber (rowPercentage r))
          \<and> isFiniteNumber (missingPercentage (missingValues A))
          \<and> isFiniteNumber (dupPercentage (duplicatesReport A))
          \<and> (\<forall>p \<in> set (columnStats A).
                \<forall>r. colOutliers (snd p) = Some r \<longrightarrow> isFiniteNumber (outPercentage r)))"
proof -
  let ?A = "analyzeDataQuality h d"
  have run: "analyzeDataQualityRun h d = Returns ?A"
    by (rule analyzeDataQualityRun_value)
  have fin: "(\<forall>p \<in> set (byColumn (missingValues ?A)). isFiniteNumber (percentage (snd p)))
          \<and> (\<forall>r \<in> set (byRow (missingValues ?A)). isFiniteNumber (rowPercentage r))
          \<and> isFiniteNumber (missingPercentage (missingValues ?A))
          \<and> isFiniteNumber (dupPercentage (duplicatesReport ?A))
          \<and> (\<forall>p \<in> set (columnStats ?A).
                \<forall>r. colOutliers (snd p) = Some r \<longrightarrow> isFiniteNumber (outPercentage r))"
    if ne: "headers d \<noteq> []" "rows d \<noteq> []"
  proof (intro conjI ballI allI impI)
    fix p r
    assume "p \<in> set (columnStats ?A)" "colOutliers (snd p) = Some r"
    then have "r = detectOutliers h (columnValues d (fst p))"
      using columnStats_entries colOutliers_columnStatOf by metis
    then show "isFiniteNumber (outPercentage r)" by (simp add: outPercentage_finite)
  next
    fix p assume "p \<in> set (byColumn (missingValues ?A))"
    then show "isFiniteNumber (percentage (snd p))"
      using byColumn_percentages [OF ne(2)] by (simp add: analyze_fields)
  next
    fix r assume "r \<in> set (byRow (missingValues ?A))"
    then show "isFiniteNumber (rowPercentage r)"
      using byRow_percentages [OF ne(1)] by (simp add: analyze_fields)
  next
    show "isFiniteNumber (missingPercentage (missingValues ?A))"
      using overall_percentages(1) [OF ne] by (simp add: analyze_fields)
    show "isFiniteNumber (dupPercentage (duplicatesReport ?A))"
      using overall_percentages(2) [OF ne] by (simp add: analyze_fields)
  qed
  from run fin show ?thesis by blast
qed

lemma degenerate_nonempty: "headers degenerateDataset \<noteq> []" "rows degenerateDataset \<noteq> []"
  by (simp_all add: degenerateDataset_def)

lemma degenerate_byColumn:
  "byColumn (findMissingValues degenerateDataset) =
     [(''a'', \<lparr>mvCount = 2, percentage = Fin 100, positions = [0, 1]\<rparr>),
      (''b'', \<lparr>mvCount = 0, percentage = Fin 0, positions = []\<rparr>),
      (''c'', \<lparr>mvCount = 2, percentage = Fin 100, positions = [0, 1]\<rparr>),
      (''n'', \<lparr>mvCount = 1, percentage = Fin 50, positions = [1]\<rparr>)]"
  by (simp add: degenerateDataset_def missing_simps trim_def isSpace_def)

lemma degenerate_column_n:
  "columnValues degenerateDataset ''n'' = [Num NaN, Undefined]"
  by (simp add: columnValues_def degenerateDataset_def getCell_def)

lemma degenerate_type_n:
  "detectDataType h [Num NaN, Undefined]
     = \<lparr>type = TNumber, confidence = Fin 1, nullable = True, mixedTypes = False\<rparr>"
  by (simp add: detect_simps)

lemma degenerate_stats_n:
  "calculateStatistics h [Num NaN, Undefined] = None"
  "detectOutliers h [Num NaN, Undefined]
     = \<lparr>outliers = [], outCount = 0, outPercentage = Fin 0, lowerBound = None, upperBound = None\<rparr>"
  by (simp_all add: detectOutliers_def calculateStatistics_def numericValues_def nonNull_def isNaN_def)

lemma degenerate_columnStat_n:
  "\<exists>cst. obj_get (columnStats (analyzeDataQuality h degenerateDataset)) ''n'' = Some cst
      \<and> type (colType cst) = TNumber \<and> statistics cst = None
      \<and> colOutliers cst = Some \<lparr>outliers = [], outCount = 0, outPercentage = Fin 0,
                                 lowerBound = None, upperBound = None\<rparr>"
proof -
  have hd: "''n'' \<in> set (headers degenerateDataset)" by (simp add: degenerateDataset_def)
  show ?thesis
    using hd
    by (simp add: columnStats_get columnStatOf_def Let_def analyzeDataTypes_get degenerate_column_n
        degenerate_type_n degenerate_stats_n)
qed

text \<open>
  A dataset with the headers \<open>a\<close>, \<open>b\<close>, \<open>c\<close> and \<open>n\<close>: column \<open>a\<close> holds null and the empty
  string, no row has the key \<open>c\<close>, the second row has a key that is not a header and lacks
  \<open>n\<close>, and the only value of \<open>n\<close> is the number NaN, so that the column is numeric and has
  no numeric value. The engine returns; the missing percentages are 100, 0, 100 and 50, and
  the column \<open>n\<close> has no statistics and an outlier report with percentage 0.
\<close>

theorem percentages_defined_witness:
  "headers degenerateDataset \<noteq> [] \<and> rows degenerateDataset \<noteq> []
   \<and> (\<exists>A. analyzeDataQualityRun decimalHost degenerateDataset = Returns A
        \<and> map (\<lambda>p. (fst p, percentage (snd p))) (byColumn (missingValues A))
            = [(''a'', Fin 100), (''b'', Fin 0), (''c'', Fin 100), (''n'', Fin 50)]
        \<and> isFiniteNumber (percentage (snd (''n'', \<lparr>mvCount = 1, percentage = Fin 50, positions = [1]\<rparr>)))
        \<and> isFiniteNumber (missingPercentage (missingValues A))
        \<and> isFiniteNumber (dupPercentage (duplicatesReport A))
        \<and> (\<exists>cst r. obj_get (columnStats A) ''n'' = Some cst \<and> statistics cst = None
              \<and> colOutliers cst = Some r \<and> outPercentage r = Fin 0))"
proof -
  obtain A where A: "analyzeDataQualityRun decimalHost degenerateDataset = Returns A"
    and fin: "headers degenerateDataset \<noteq> [] \<and> rows degenerateDataset \<noteq> [] \<longrightarrow>
          (\<forall>p \<in> set (byColumn (missingValues A)). isFiniteNumber (percentage (snd p)))
          \<and> (\<forall>r \<in> set (byRow (missingValues A)). isFiniteNumber (rowPercentage r))
          \<and> isFiniteNumber (missingPercentage (missingValues A))
          \<and> isFiniteNumber (dupPercentage (duplicatesReport A))
          \<and> (\<forall>p \<in> set (columnStats A).
                \<forall>r. colOutliers (snd p) = Some r \<longrightarrow> isFiniteNumber (outPercentage r))"
    using percentages_defined [of decimalHost degenerateDataset] by blast
  have eq: "A = analyzeDataQuality decimalHost degenerateDataset"
    using A by (simp add: analyzeDataQualityRun_value)
  have bc: "byColumn (missingValues A) =
     [(''a'', \<lparr>mvCount = 2, percentage = Fin 100, positions = [0, 1]\<rparr>),
      (''b'', \<lparr>mvCount = 0, percentage = Fin 0, positions = []\<rparr>),
      (''c'', \<lparr>mvCount = 2, percentage = Fin 100, positions = [0, 1]\<rparr>),
      (''n'', \<lparr>mvCount = 1, percentage = Fin 50, positions = [1]\<rparr>)]"
    by (simp add: eq analyze_fields degenerate_byColumn)
  have m: "(''n'', \<lparr>mvCount = 1, percentage = Fin 50, positions = [1]\<rparr>) \<in> set (byColumn (missingValues A))"
    by (simp add: bc)
  from fin degenerate_nonempty m
  have f1: "isFiniteNumber (percentage (snd (''n'', \<lparr>mvCount = 1, percentage = Fin 50, positions = [1]\<rparr>)))"
    by blast
  from fin degenerate_nonempty
  have f2: "isFiniteNumber (missingPercentage (missingValues A))"
    and f3: "isFiniteNumber (dupPercentage (duplicatesReport A))"
    by blast+
  obtain cst where cst: "obj_get (columnStats (analyzeDataQuality decimalHost degenerateDataset)) ''n'' = Some cst"
      "statistics cst = None"
      "colOutliers cst = Some \<lparr>outliers = [], outCount = 0, outPercentage = Fin 0,
                                 lowerBound = None, upperBound = None\<rparr>"
    using degenerate_columnStat_n [of decimalHost] by blast
  have n: "\<exists>cst r. obj_get (columnStats A) ''n'' = Some cst \<and> statistics cst = None
              \<and> colOutliers cst = Some r \<and> outPercentage r = Fin 0"
  proof (intro exI conjI)
    show "obj_get (columnStats A) ''n'' = Some cst" unfolding eq by (rule cst(1))
    show "statistics cst = None" by (rule cst(2))
    show "colOutliers cst = Some \<lparr>outliers = [], outCount = 0, outPercentage = Fin 0,
                                 lowerBound = None, upperBound = None\<rparr>" by (rule cst(3))
    show "outPercentage \<lparr>outliers = [], outCount = 0, outPercentage = Fin 0,
                                 lowerBound = None, upperBound = None\<rparr> = Fin 0" by simp
  qed
  have pc: "map (\<lambda>p. (fst p, percentage (snd p))) (byColumn (missingValues A))
            = [(''a'', Fin 100), (''b'', Fin 0), (''c'', Fin 100), (''n'', Fin 50)]"
    unfolding bc by simp
  show ?thesis
  proof (intro conjI)
    show "\<exists>A. analyzeDataQualityRun decimalHost degenerateDataset = Returns A
        \<and> map (\<lambda>p. (fst p, percentage (snd p))) (byColumn (missingValues A))
            = [(''a'', Fin 100), (''b'', Fin 0), (''c'', Fin 100), (''n'', Fin 50)]
        \<and> isFiniteNumber (percentage (snd (''n'', \<lparr>mvCount = 1, percentage = Fin 50, positions = [1]\<rparr>)))
        \<and> isFiniteNumber (missingPercentage (missingValues A))
        \<and> isFiniteNumber (dupPercentage (duplicatesReport A))
        \<and> (\<exists>cst r. obj_get (columnStats A) ''n'' = Some cst \<and> statistics cst = None
              \<and> colOutliers cst = Some r \<and> outPercentage r = Fin 0)"
      by (intro exI [of _ A] conjI) (rule A pc f1 f2 f3 n)+
  qed (rule degenerate_nonempty)+
qed

text \<open>
  On the dataset with the header \<open>a\<close> and no row the engine returns, and the missing
  percentage of the column, the overall missing percentage and the duplicate percentage of
  the returned analysis are NaN.
\<close>

theorem percentages_zero_rows_counterexample:
  "rows headerOnlyDataset = []
   \<and> (\<exists>A. analyzeDataQualityRun decimalHost headerOnlyDataset = Returns A
        \<and> byColumn (missingValues A) = [(''a'', \<lparr>mvCount = 0, percentage = NaN, positions = []\<rparr>)]
        \<and> missingPercentage (missingValues A) = NaN
        \<and> dupPercentage (duplicatesReport A) = NaN)
   \<and> \<not> isFiniteNumber NaN"
proof -
  let ?A = "analyzeDataQuality decimalHost headerOnlyDataset"
  have run: "analyzeDataQualityRun decimalHost headerOnlyDataset = Returns ?A"
    by (rule analyzeDataQualityRun_value)
  have v: "byColumn (missingValues ?A) = [(''a'', \<lparr>mvCount = 0, percentage = NaN, positions = []\<rparr>)]"
      "missingPercentage (missingValues ?A) = NaN"
      "dupPercentage (duplicatesReport ?A) = NaN"
    by (simp_all add: analyze_fields headerOnly_missing headerOnly_duplicates)
  have r: "rows headerOnlyDataset = []" by (simp add: headerOnlyDataset_def)
  have nf: "\<not> isFiniteNumber NaN" by (simp add: isFiniteNumber_def)
  show ?thesis
    by (intro conjI exI [of _ ?A]) (rule run v r nf)+
qed


end
